theory Spec2Isabelle
  imports Main "HOL-Library.Word" "HOL-Library.Sublist"
begin

section \<open>JavaScript strings\<close>

text \<open>
  A JavaScript string is a sequence of UTF-16 code units. The regular expressions of the
  preview component carry no \<open>u\<close> flag, so they work on code units as well.
  ASCII literals of the source are written with \<open>js\<close>.
\<close>

type_synonym code_unit = "16 word"
type_synonym jsstring = "code_unit list"

definition cu :: "char \<Rightarrow> code_unit" where
  "cu c = of_nat (of_char c)"

definition js :: "string \<Rightarrow> jsstring" where
  "js s = map cu s"

text \<open>
  The character class \<open>[a-z0-9]\<close> under the \<open>i\<close> flag. Without the \<open>u\<close> flag
  a code unit from 128 on is never folded onto an ASCII letter, so the class holds the
  ASCII letters of both cases and the digits, and nothing else.
\<close>

definition is_alnum :: "code_unit \<Rightarrow> bool" where
  "is_alnum c =
     ((0x30 \<le> c \<and> c \<le> 0x39) \<or> (0x41 \<le> c \<and> c \<le> 0x5A) \<or> (0x61 \<le> c \<and> c \<le> 0x7A))"

text \<open>\<^verbatim>\<open>s.replace(/[^a-z0-9]/gi, '_')\<close>: every code unit outside the class becomes \<open>_\<close>.\<close>

definition replace_non_alnum :: "jsstring \<Rightarrow> jsstring" where
  "replace_non_alnum s = map (\<lambda>c. if is_alnum c then c else 0x5F) s"

text \<open>
  \<^verbatim>\<open>toLowerCase()\<close> as far as the source uses it: its receiver is the result of the
  replacement above, which holds ASCII letters, digits and underscores only. There it
  maps \<open>A\<close>..\<open>Z\<close> to \<open>a\<close>..\<open>z\<close> and keeps every other code unit.
\<close>

definition lower_unit :: "code_unit \<Rightarrow> code_unit" where
  "lower_unit c = (if 0x41 \<le> c \<and> c \<le> 0x5A then c + 0x20 else c)"

definition toLowerCase :: "jsstring \<Rightarrow> jsstring" where
  "toLowerCase s = map lower_unit s"

text \<open>
  \<^verbatim>\<open>trim()\<close> removes the white space and line terminators of ECMAScript from both
  ends: TAB, LF, VT, FF, CR, SP, NBSP, U+1680, U+2000..U+200A, U+2028, U+2029, U+202F,
  U+205F, U+3000 and U+FEFF.
\<close>

definition is_space :: "code_unit \<Rightarrow> bool" where
  "is_space c =
     ((0x9 \<le> c \<and> c \<le> 0xD) \<or> c = 0x20 \<or> c = 0xA0 \<or> c = 0x1680 \<or>
      (0x2000 \<le> c \<and> c \<le> 0x200A) \<or> c = 0x2028 \<or> c = 0x2029 \<or> c = 0x202F \<or>
      c = 0x205F \<or> c = 0x3000 \<or> c = 0xFEFF)"

definition trim :: "jsstring \<Rightarrow> jsstring" where
  "trim s = rev (dropWhile is_space (rev (dropWhile is_space s)))"

text \<open>\<^verbatim>\<open>s.includes(pat)\<close>: \<open>pat\<close> occurs in \<open>s\<close> at some position.\<close>

fun js_includes :: "jsstring \<Rightarrow> jsstring \<Rightarrow> bool" where
  "js_includes pat [] = prefix pat []"
| "js_includes pat (x # xs) = (prefix pat (x # xs) \<or> js_includes pat xs)"

section \<open>Export helpers (LivePreview)\<close>

text \<open>
  \<^verbatim>\<open>
  const match = html.match(
    /<script id="design-prompt-data" type="text\/plain">([\s\S]*?)<\/script>/);
  \<close>
  The pattern is the opening tag, a lazy run of arbitrary code units (the capture group)
  and the closing tag. \<open>lazy_until\<close> is the lazy run followed by the closing tag, tried
  from the shortest run on; \<open>match_at\<close> is the pattern anchored at the start of its
  argument; \<open>regex_match\<close> tries the start positions from left to right, as the
  matcher does, and returns the capture group of the first match, \<open>None\<close> for
  \<^verbatim>\<open>null\<close>.
\<close>

definition prompt_open :: jsstring where
  "prompt_open = js ''<script id=\"design-prompt-data\" type=\"text/plain\">''"

definition prompt_close :: jsstring where
  "prompt_close = js ''</script>''"

fun lazy_until :: "jsstring \<Rightarrow> jsstring \<Rightarrow> jsstring option" where
  "lazy_until cl [] = (if prefix cl [] then Some [] else None)"
| "lazy_until cl (x # xs) =
     (if prefix cl (x # xs) then Some [] else map_option ((#) x) (lazy_until cl xs))"

definition match_at :: "jsstring \<Rightarrow> jsstring option" where
  "match_at s =
     (if prefix prompt_open s then lazy_until prompt_close (drop (length prompt_open) s)
      else None)"

fun regex_match :: "jsstring \<Rightarrow> jsstring option" where
  "regex_match [] = match_at []"
| "regex_match (x # xs) =
     (case match_at (x # xs) of Some c \<Rightarrow> Some c | None \<Rightarrow> regex_match xs)"

text \<open>
  \<^verbatim>\<open>
  if (match && match[1]) { promptText = match[1].trim(); }
  else { promptText = "Design prompt not found in the generated file."; }
  \<close>
  The empty string is falsy, so an empty capture takes the second branch.
\<close>

definition prompt_placeholder :: jsstring where
  "prompt_placeholder = js ''Design prompt not found in the generated file.''"

definition promptText :: "jsstring \<Rightarrow> jsstring" where
  "promptText html_text =
     (case regex_match html_text of
        Some c \<Rightarrow> if c \<noteq> [] then trim c else prompt_placeholder
      | None \<Rightarrow> prompt_placeholder)"

text \<open>A download started by the click on the temporary anchor: the Blob and its name.\<close>

record download =
  file_name :: jsstring
  mime_type :: jsstring
  content :: jsstring

text \<open>
  \<^verbatim>\<open>a.download = `PROMPT_${themeName.replace(/[^a-z0-9]/gi, '_')}.txt`;\<close>
\<close>

definition handleDownloadPrompt :: "jsstring \<Rightarrow> jsstring \<Rightarrow> download" where
  "handleDownloadPrompt html_text theme =
     \<lparr>file_name = js ''PROMPT_'' @ replace_non_alnum theme @ js ''.txt'',
      mime_type = js ''text/plain'',
      content = promptText html_text\<rparr>"

section \<open>Theme variants, creations and the preview state\<close>

record design_version =
  themeName :: jsstring
  description :: jsstring
  html :: jsstring

text \<open>
  Modelled from the spec: the type \<open>Creation\<close> of the \<open>creation\<close> prop is declared in
  CreationHistory, which is not among the sources. The preview reads three of its fields:
  \<open>name\<close>, the legacy single document \<open>html\<close> (here \<open>legacy_html\<close>: \<open>html\<close> is
  the field of a version) and the array \<open>versions\<close>; the last two may be absent
  (\<^verbatim>\<open>undefined\<close>), which is \<open>None\<close>.
\<close>

record creation =
  name :: jsstring
  legacy_html :: "jsstring option"
  versions :: "design_version list option"

text \<open>
  \<^verbatim>\<open>
  const [selectedVersionIndex, setSelectedVersionIndex] =
      useState<number | null>(null); // null means "Show All"
  const [activeVersions, setActiveVersions] = useState<any[]>([]);
  \<close>
\<close>

record preview_state =
  selectedVersionIndex :: "nat option"
  activeVersions :: "design_version list"

definition initial_preview :: preview_state where
  "initial_preview = \<lparr>selectedVersionIndex = None, activeVersions = []\<rparr>"

text \<open>
  The effect on the \<open>creation\<close> prop:
  \<^verbatim>\<open>
  if (creation) {
      if (creation.versions && creation.versions.length > 0) {
          setActiveVersions(creation.versions);
          setSelectedVersionIndex(null); // Default to "Show All" view
      } else if (creation.html) {
          // Legacy support for single html
          setActiveVersions([{ themeName: "Standard Theme",
              description: "Original Design", html: creation.html }]);
          setSelectedVersionIndex(0);
      }
  } else {
      setActiveVersions([]);
  }
  \<close>
  A string is truthy when it is not empty; an array is always truthy.
\<close>

definition has_versions :: "creation \<Rightarrow> bool" where
  "has_versions c = (case versions c of None \<Rightarrow> False | Some vs \<Rightarrow> 0 < length vs)"

definition has_html :: "creation \<Rightarrow> bool" where
  "has_html c = (case legacy_html c of None \<Rightarrow> False | Some h \<Rightarrow> h \<noteq> [])"

definition legacy_version :: "jsstring \<Rightarrow> design_version" where
  "legacy_version h =
     \<lparr>themeName = js ''Standard Theme'', description = js ''Original Design'', html = h\<rparr>"

definition creation_effect :: "creation option \<Rightarrow> preview_state \<Rightarrow> preview_state" where
  "creation_effect cr st =
     (case cr of
        Some c \<Rightarrow>
          if has_versions c then
            st\<lparr>activeVersions := the (versions c), selectedVersionIndex := None\<rparr>
          else if has_html c then
            st\<lparr>activeVersions := [legacy_version (the (legacy_html c))],
               selectedVersionIndex := Some 0\<rparr>
          else st
      | None \<Rightarrow> st\<lparr>activeVersions := []\<rparr>)"

text \<open>
  The click handlers of the tab strip and of the gallery:
  \<^verbatim>\<open>onClick={() => setSelectedVersionIndex(null)}\<close> on the compare tab and
  \<^verbatim>\<open>onClick={() => setSelectedVersionIndex(idx)}\<close> on the tab, the preview button and
  every thumbnail of theme \<open>idx\<close>.
\<close>

datatype click = CompareThemes | VersionTab nat | PreviewFlow nat | Thumbnail nat nat

fun on_click :: "click \<Rightarrow> preview_state \<Rightarrow> preview_state" where
  "on_click CompareThemes st = st\<lparr>selectedVersionIndex := None\<rparr>"
| "on_click (VersionTab idx) st = st\<lparr>selectedVersionIndex := Some idx\<rparr>"
| "on_click (PreviewFlow idx) st = st\<lparr>selectedVersionIndex := Some idx\<rparr>"
| "on_click (Thumbnail idx pIdx) st = st\<lparr>selectedVersionIndex := Some idx\<rparr>"

text \<open>
  Which of these controls the component renders: the tab strip under
  \<^verbatim>\<open>!isLoading && activeVersions.length > 1\<close>, the gallery under
  \<^verbatim>\<open>!isLoading && selectedVersionIndex === null\<close>, one row per theme and one
  thumbnail per entry of the three \<open>PREVIEW_PAGES\<close>.
\<close>

fun rendered :: "bool \<Rightarrow> preview_state \<Rightarrow> click \<Rightarrow> bool" where
  "rendered loading st CompareThemes = (\<not> loading \<and> 1 < length (activeVersions st))"
| "rendered loading st (VersionTab idx) =
     (\<not> loading \<and> 1 < length (activeVersions st) \<and> idx < length (activeVersions st))"
| "rendered loading st (PreviewFlow idx) =
     (\<not> loading \<and> selectedVersionIndex st = None \<and> idx < length (activeVersions st))"
| "rendered loading st (Thumbnail idx pIdx) =
     (\<not> loading \<and> selectedVersionIndex st = None \<and> idx < length (activeVersions st) \<and>
      pIdx < 3)"

text \<open>
  The focused view shows \<^verbatim>\<open>activeVersions[selectedVersionIndex]\<close> under
  \<^verbatim>\<open>!isLoading && selectedVersionIndex !== null && activeVersions[selectedVersionIndex]\<close>;
  an index out of range reads \<^verbatim>\<open>undefined\<close>, which is falsy. The gallery shows every
  active version under \<^verbatim>\<open>!isLoading && selectedVersionIndex === null\<close>.
\<close>

definition focused_view :: "bool \<Rightarrow> preview_state \<Rightarrow> design_version option" where
  "focused_view loading st =
     (case selectedVersionIndex st of
        Some i \<Rightarrow>
          if \<not> loading \<and> i < length (activeVersions st) then Some (activeVersions st ! i)
          else None
      | None \<Rightarrow> None)"

definition gallery_view :: "bool \<Rightarrow> preview_state \<Rightarrow> design_version list option" where
  "gallery_view loading st =
     (if \<not> loading \<and> selectedVersionIndex st = None then Some (activeVersions st) else None)"

text \<open>
  \<^verbatim>\<open>
  const handleDownloadHtml = (html: string, suffix: string) => {
      if (!creation) return;
      const blob = new Blob([html], { type: "text/html" });
      ...
      a.download =
        `${creation.name.replace(/[^a-z0-9]/gi, '_').toLowerCase()}_${suffix}.html`;
  \<close>
  The callers pass the theme name of the version as \<open>suffix\<close>.
\<close>

definition handleDownloadHtml :: "creation option \<Rightarrow> jsstring \<Rightarrow> jsstring \<Rightarrow> download option" where
  "handleDownloadHtml cr html_text sfx =
     (case cr of
        None \<Rightarrow> None
      | Some c \<Rightarrow>
          Some \<lparr>file_name =
                  toLowerCase (replace_non_alnum (name c)) @ js ''_'' @ sfx @ js ''.html'',
                mime_type = js ''text/html'',
                content = html_text\<rparr>)"

section \<open>Loading simulation (LivePreview)\<close>

text \<open>
  \<^verbatim>\<open>
  const [loadingStep, setLoadingStep] = useState(0);
  useEffect(() => {
      if (isLoading) {
          setLoadingStep(0);
          const interval = setInterval(() => {
              setLoadingStep(prev => (prev < 4 ? prev + 1 : prev));
          }, 2000);
          return () => clearInterval(interval);
      } else {
          setLoadingStep(0);
      }
  }, [isLoading]);
  \<close>
  The state is the \<open>isLoading\<close> prop together with \<open>loadingStep\<close>. The effect runs
  when \<open>isLoading\<close> changes; the interval exists only while \<open>isLoading\<close> holds
  (the cleanup clears it), so a tick reaches the updater only then.
\<close>

record loading_state =
  isLoading :: bool
  loadingStep :: int

datatype loading_event = SetLoading bool | Tick

definition initial_loading :: loading_state where
  "initial_loading = \<lparr>isLoading = False, loadingStep = 0\<rparr>"

definition tick_update :: "int \<Rightarrow> int" where
  "tick_update prev = (if prev < 4 then prev + 1 else prev)"

definition loading_effect :: "bool \<Rightarrow> loading_state \<Rightarrow> loading_state" where
  "loading_effect b s =
     (if b then s\<lparr>isLoading := True, loadingStep := 0\<rparr>
      else s\<lparr>isLoading := False, loadingStep := 0\<rparr>)"

fun loading_step :: "loading_state \<Rightarrow> loading_event \<Rightarrow> loading_state" where
  "loading_step s (SetLoading b) = (if isLoading s = b then s else loading_effect b s)"
| "loading_step s Tick =
     (if isLoading s then s\<lparr>loadingStep := tick_update (loadingStep s)\<rparr> else s)"

fun loading_run :: "loading_state \<Rightarrow> loading_event list \<Rightarrow> loading_state" where
  "loading_run s [] = s"
| "loading_run s (e # es) = loading_run (loading_step s e) es"

definition start_generation :: "loading_state \<Rightarrow> loading_state" where
  "start_generation s = loading_step s (SetLoading True)"

definition finish_generation :: "loading_state \<Rightarrow> loading_state" where
  "finish_generation s = loading_step s (SetLoading False)"

section \<open>The generation client (services/gemini.ts)\<close>

text \<open>
  \<^verbatim>\<open>JSON.parse\<close> is the platform's. Its model follows the JSON grammar of ECMAScript:
  white space is SP, TAB, LF and CR; a string has no raw control character and the
  escapes \<open>\" \\ \/ \b \f \n \r \t \uXXXX\<close>; a number is
  \<open>-? (0 | [1-9][0-9]*) (. [0-9]+)? ([eE] [+-]? [0-9]+)?\<close>; anything after the value
  but white space is a syntax error. A number is kept as its lexeme (its value is a
  float, and no claim reads it); an object is kept as its members in source order.
  The parser descends with fuel; every two levels of the descent consume a code unit,
  so \<open>2 * length s + 2\<close> levels are enough (\<open>JSON_parse_any_fuel\<close> below).
\<close>

datatype json =
    JNull
  | JBool bool
  | JNumber jsstring
  | JString jsstring
  | JArray "json list"
  | JObject "(jsstring \<times> json) list"

datatype js_error = SyntaxError | TypeError | Error jsstring | CallFailed

definition is_json_ws :: "code_unit \<Rightarrow> bool" where
  "is_json_ws c = (c = 0x20 \<or> c = 0x9 \<or> c = 0xA \<or> c = 0xD)"

definition skip_ws :: "jsstring \<Rightarrow> jsstring" where
  "skip_ws s = dropWhile is_json_ws s"

definition is_digit :: "code_unit \<Rightarrow> bool" where
  "is_digit c = (0x30 \<le> c \<and> c \<le> 0x39)"

definition hex_value :: "code_unit \<Rightarrow> code_unit option" where
  "hex_value c =
     (if 0x30 \<le> c \<and> c \<le> 0x39 then Some (c - 0x30)
      else if 0x41 \<le> c \<and> c \<le> 0x46 then Some (c - 0x37)
      else if 0x61 \<le> c \<and> c \<le> 0x66 then Some (c - 0x57)
      else None)"

definition hex4 :: "code_unit \<Rightarrow> code_unit \<Rightarrow> code_unit \<Rightarrow> code_unit \<Rightarrow> code_unit option" where
  "hex4 a b c d =
     (case (hex_value a, hex_value b, hex_value c, hex_value d) of
        (Some h3, Some h2, Some h1, Some h0) \<Rightarrow> Some (((h3 * 16 + h2) * 16 + h1) * 16 + h0)
      | _ \<Rightarrow> None)"

definition escape :: "code_unit \<Rightarrow> code_unit option" where
  "escape e =
     (if e = 0x22 \<or> e = 0x5C \<or> e = 0x2F then Some e
      else if e = 0x62 then Some 0x8
      else if e = 0x66 then Some 0xC
      else if e = 0x6E then Some 0xA
      else if e = 0x72 then Some 0xD
      else if e = 0x74 then Some 0x9
      else None)"

fun parse_chars :: "jsstring \<Rightarrow> (jsstring \<times> jsstring) option" where
  "parse_chars [] = None"
| "parse_chars (c # s) =
     (if c = 0x22 then Some ([], s)
      else if c = 0x5C then
        (case s of
           [] \<Rightarrow> None
         | e # s1 \<Rightarrow>
             if e = 0x75 then
               (case s1 of
                  a # b # c # d # s2 \<Rightarrow>
                    (case hex4 a b c d of
                       None \<Rightarrow> None
                     | Some u \<Rightarrow> map_option (apfst ((#) u)) (parse_chars s2))
                | _ \<Rightarrow> None)
             else
               (case escape e of
                  None \<Rightarrow> None
                | Some u \<Rightarrow> map_option (apfst ((#) u)) (parse_chars s1)))
      else if c < 0x20 then None
      else map_option (apfst ((#) c)) (parse_chars s))"

definition digits :: "jsstring \<Rightarrow> (jsstring \<times> jsstring) option" where
  "digits s = (if takeWhile is_digit s = [] then None else Some (takeWhile is_digit s, dropWhile is_digit s))"

definition parse_int_part :: "jsstring \<Rightarrow> (jsstring \<times> jsstring) option" where
  "parse_int_part s =
     (case s of
        [] \<Rightarrow> None
      | d # r \<Rightarrow> if d = 0x30 then Some ([d], r) else digits s)"

definition parse_frac :: "jsstring \<Rightarrow> (jsstring \<times> jsstring) option" where
  "parse_frac s =
     (case s of
        [] \<Rightarrow> Some ([], s)
      | p # r \<Rightarrow> if p = 0x2E then map_option (apfst ((#) p)) (digits r) else Some ([], s))"

definition parse_exp :: "jsstring \<Rightarrow> (jsstring \<times> jsstring) option" where
  "parse_exp s =
     (case s of
        [] \<Rightarrow> Some ([], s)
      | e # r \<Rightarrow>
          if e = 0x65 \<or> e = 0x45 then
            (case r of
               [] \<Rightarrow> None
             | g # r1 \<Rightarrow>
                 if g = 0x2B \<or> g = 0x2D then map_option (apfst (\<lambda>ds. e # g # ds)) (digits r1)
                 else map_option (apfst ((#) e)) (digits r))
          else Some ([], s))"

definition parse_number :: "jsstring \<Rightarrow> (jsstring \<times> jsstring) option" where
  "parse_number s =
     (let (sign, s1) = (case s of m # r \<Rightarrow> if m = 0x2D then ([m], r) else ([], s) | [] \<Rightarrow> ([], s)) in
      case parse_int_part s1 of
        None \<Rightarrow> None
      | Some (ip, s2) \<Rightarrow>
          (case parse_frac s2 of
             None \<Rightarrow> None
           | Some (fp, s3) \<Rightarrow>
               (case parse_exp s3 of
                  None \<Rightarrow> None
                | Some (ep, s4) \<Rightarrow> Some (sign @ ip @ fp @ ep, s4))))"

fun parse_value :: "nat \<Rightarrow> jsstring \<Rightarrow> (json \<times> jsstring) option"
  and parse_elements :: "nat \<Rightarrow> jsstring \<Rightarrow> (json list \<times> jsstring) option"
  and parse_members :: "nat \<Rightarrow> jsstring \<Rightarrow> ((jsstring \<times> json) list \<times> jsstring) option"
where
  "parse_value 0 s = None"
| "parse_value (Suc n) s =
     (case skip_ws s of
        [] \<Rightarrow> None
      | c # r \<Rightarrow>
          if c = 0x7B then
            (case skip_ws r of
               [] \<Rightarrow> None
             | d # r1 \<Rightarrow>
                 if d = 0x7D then Some (JObject [], r1)
                 else map_option (apfst JObject) (parse_members n r))
          else if c = 0x5B then
            (case skip_ws r of
               [] \<Rightarrow> None
             | d # r1 \<Rightarrow>
                 if d = 0x5D then Some (JArray [], r1)
                 else map_option (apfst JArray) (parse_elements n r))
          else if c = 0x22 then map_option (apfst JString) (parse_chars r)
          else if prefix (js ''null'') (c # r) then Some (JNull, drop 4 (c # r))
          else if prefix (js ''true'') (c # r) then Some (JBool True, drop 4 (c # r))
          else if prefix (js ''false'') (c # r) then Some (JBool False, drop 5 (c # r))
          else map_option (apfst JNumber) (parse_number (c # r)))"
| "parse_elements 0 s = None"
| "parse_elements (Suc n) s =
     (case parse_value n s of
        None \<Rightarrow> None
      | Some (v, r) \<Rightarrow>
          (case skip_ws r of
             [] \<Rightarrow> None
           | c # r1 \<Rightarrow>
               if c = 0x2C then map_option (apfst ((#) v)) (parse_elements n r1)
               else if c = 0x5D then Some ([v], r1)
               else None))"
| "parse_members 0 s = None"
| "parse_members (Suc n) s =
     (case skip_ws s of
        [] \<Rightarrow> None
      | q # r \<Rightarrow>
          if q = 0x22 then
            (case parse_chars r of
               None \<Rightarrow> None
             | Some (k, r1) \<Rightarrow>
                 (case skip_ws r1 of
                    [] \<Rightarrow> None
                  | c # r2 \<Rightarrow>
                      if c = 0x3A then
                        (case parse_value n r2 of
                           None \<Rightarrow> None
                         | Some (v, r3) \<Rightarrow>
                             (case skip_ws r3 of
                                [] \<Rightarrow> None
                              | d # r4 \<Rightarrow>
                                  if d = 0x2C then
                                    map_option (apfst ((#) (k, v))) (parse_members n r4)
                                  else if d = 0x7D then Some ([(k, v)], r4)
                                  else None))
                      else None))
          else None)"

definition JSON_parse :: "jsstring \<Rightarrow> js_error + json" where
  "JSON_parse s =
     (case parse_value (2 * length s + 2) s of
        None \<Rightarrow> Inl SyntaxError
      | Some (v, r) \<Rightarrow> if skip_ws r = [] then Inr v else Inl SyntaxError)"

text \<open>
  The three levels of the descent with their recursive calls as parameters:
  \<open>parse_value (Suc n)\<close> is \<open>value_body (parse_members n) (parse_elements n)\<close>, and
  likewise for the other two. They serve the proof that the fuel of \<open>JSON_parse\<close> is
  enough.
\<close>

definition value_body ::
  "(jsstring \<Rightarrow> ((jsstring \<times> json) list \<times> jsstring) option) \<Rightarrow>
   (jsstring \<Rightarrow> (json list \<times> jsstring) option) \<Rightarrow> jsstring \<Rightarrow> (json \<times> jsstring) option" where
  "value_body pm pe s =
     (case skip_ws s of
        [] \<Rightarrow> None
      | c # r \<Rightarrow>
          if c = 0x7B then
            (case skip_ws r of
               [] \<Rightarrow> None
             | d # r1 \<Rightarrow>
                 if d = 0x7D then Some (JObject [], r1)
                 else map_option (apfst JObject) (pm r))
          else if c = 0x5B then
            (case skip_ws r of
               [] \<Rightarrow> None
             | d # r1 \<Rightarrow>
                 if d = 0x5D then Some (JArray [], r1)
                 else map_option (apfst JArray) (pe r))
          else if c = 0x22 then map_option (apfst JString) (parse_chars r)
          else if prefix (js ''null'') (c # r) then Some (JNull, drop 4 (c # r))
          else if prefix (js ''true'') (c # r) then Some (JBool True, drop 4 (c # r))
          else if prefix (js ''false'') (c # r) then Some (JBool False, drop 5 (c # r))
          else map_option (apfst JNumber) (parse_number (c # r)))"

definition elements_body ::
  "(jsstring \<Rightarrow> (json \<times> jsstring) option) \<Rightarrow>
   (jsstring \<Rightarrow> (json list \<times> jsstring) option) \<Rightarrow> jsstring \<Rightarrow> (json list \<times> jsstring) option" where
  "elements_body pv pe s =
     (case pv s of
        None \<Rightarrow> None
      | Some (v, r) \<Rightarrow>
          (case skip_ws r of
             [] \<Rightarrow> None
           | c # r1 \<Rightarrow>
               if c = 0x2C then map_option (apfst ((#) v)) (pe r1)
               else if c = 0x5D then Some ([v], r1)
               else None))"

definition members_body ::
  "(jsstring \<Rightarrow> (json \<times> jsstring) option) \<Rightarrow>
   (jsstring \<Rightarrow> ((jsstring \<times> json) list \<times> jsstring) option) \<Rightarrow> jsstring \<Rightarrow>
   ((jsstring \<times> json) list \<times> jsstring) option" where
  "members_body pv pm s =
     (case skip_ws s of
        [] \<Rightarrow> None
      | q # r \<Rightarrow>
          if q = 0x22 then
            (case parse_chars r of
               None \<Rightarrow> None
             | Some (k, r1) \<Rightarrow>
                 (case skip_ws r1 of
                    [] \<Rightarrow> None
                  | c # r2 \<Rightarrow>
                      if c = 0x3A then
                        (case pv r2 of
                           None \<Rightarrow> None
                         | Some (v, r3) \<Rightarrow>
                             (case skip_ws r3 of
                                [] \<Rightarrow> None
                              | d # r4 \<Rightarrow>
                                  if d = 0x2C then
                                    map_option (apfst ((#) (k, v))) (pm r4)
                                  else if d = 0x7D then Some ([(k, v)], r4)
                                  else None))
                      else None))
          else None)"

text \<open>
  \<^verbatim>\<open>data.designs\<close>: reading a property of \<^verbatim>\<open>null\<close> throws a TypeError; an object
  yields the value of its last member of that name (a later duplicate overwrites an
  earlier one), \<^verbatim>\<open>undefined\<close> (\<open>None\<close>) when there is none; an array, a string, a
  number and a boolean have no property \<open>designs\<close>.
\<close>

definition get_designs :: "json \<Rightarrow> js_error + json option" where
  "get_designs data =
     (case data of
        JNull \<Rightarrow> Inl TypeError
      | JObject ms \<Rightarrow> Inr (map_of (rev ms) (js ''designs''))
      | _ \<Rightarrow> Inr None)"

text \<open>
  Truthiness, for \<^verbatim>\<open>!data.designs\<close>. A number is falsy when it is zero; the model
  reads that off the digits before the exponent and leaves the underflow of a float to
  zero out. \<^verbatim>\<open>Array.isArray\<close> holds of arrays only.
\<close>

definition nonzero_number :: "jsstring \<Rightarrow> bool" where
  "nonzero_number n =
     list_ex (\<lambda>c. 0x31 \<le> c \<and> c \<le> 0x39) (takeWhile (\<lambda>c. c \<noteq> 0x65 \<and> c \<noteq> 0x45) n)"

fun truthy :: "json option \<Rightarrow> bool" where
  "truthy None = False"
| "truthy (Some JNull) = False"
| "truthy (Some (JBool b)) = b"
| "truthy (Some (JNumber n)) = nonzero_number n"
| "truthy (Some (JString s)) = (s \<noteq> [])"
| "truthy (Some (JArray vs)) = True"
| "truthy (Some (JObject ms)) = True"

fun isArray :: "json option \<Rightarrow> bool" where
  "isArray (Some (JArray vs)) = True"
| "isArray v = False"

fun array_items :: "json option \<Rightarrow> json list" where
  "array_items (Some (JArray vs)) = vs"
| "array_items v = []"

text \<open>
  \<^verbatim>\<open>
  const jsonText = response.text || "{}";
  const data = JSON.parse(jsonText);
  if (!data.designs || !Array.isArray(data.designs)) {
      throw new Error("Invalid response structure");
  }
  return data.designs;
  \<close>
  \<open>response.text\<close> is a string or \<^verbatim>\<open>undefined\<close> (\<open>None\<close>). The \<^verbatim>\<open>catch\<close> block logs
  the error and throws it again, so every error reaches the caller as it is. The declared
  result type \<open>DesignVersion[]\<close> is erased at run time: the function returns the array it
  found, whatever its entries are.
\<close>

definition jsonText :: "jsstring option \<Rightarrow> jsstring" where
  "jsonText text = (case text of None \<Rightarrow> js ''{}'' | Some t \<Rightarrow> if t = [] then js ''{}'' else t)"

definition invalid_structure :: js_error where
  "invalid_structure = Error (js ''Invalid response structure'')"

definition read_response :: "jsstring option \<Rightarrow> js_error + json list" where
  "read_response text =
     (case JSON_parse (jsonText text) of
        Inl e \<Rightarrow> Inl e
      | Inr data \<Rightarrow>
          (case get_designs data of
             Inl e \<Rightarrow> Inl e
           | Inr d \<Rightarrow>
               if \<not> truthy d \<or> \<not> isArray d then Inl invalid_structure
               else Inr (array_items d)))"

text \<open>
  The awaited call \<^verbatim>\<open>ai.models.generateContent\<close> is the external collaborator: it
  either rejects with an error of its own or returns a response, of which the function
  reads the text only.
\<close>

definition bringToLife :: "js_error + jsstring option \<Rightarrow> js_error + json list" where
  "bringToLife outcome =
     (case outcome of Inl e \<Rightarrow> Inl e | Inr text \<Rightarrow> read_response text)"

text \<open>
  The shape the response is asked to have: an object with the three string fields of a
  \<open>DesignVersion\<close>.
\<close>

definition string_field :: "(jsstring \<times> json) list \<Rightarrow> jsstring \<Rightarrow> bool" where
  "string_field ms k = (case map_of (rev ms) k of Some (JString s) \<Rightarrow> True | _ \<Rightarrow> False)"

fun is_design_version :: "json \<Rightarrow> bool" where
  "is_design_version (JObject ms) =
     (string_field ms (js ''themeName'') \<and> string_field ms (js ''description'') \<and>
      string_field ms (js ''html''))"
| "is_design_version v = False"

definition three_variants :: "json list \<Rightarrow> bool" where
  "three_variants ds = (length ds = 3 \<and> list_all is_design_version ds)"

section \<open>Properties of the loading simulation\<close>

lemma loading_step_range:
  "0 \<le> loadingStep s \<Longrightarrow> loadingStep s \<le> 4 \<Longrightarrow>
   0 \<le> loadingStep (loading_step s e) \<and> loadingStep (loading_step s e) \<le> 4"
  by (cases e) (simp_all add: loading_effect_def tick_update_def)

lemma loading_run_range:
  "0 \<le> loadingStep s \<Longrightarrow> loadingStep s \<le> 4 \<Longrightarrow>
   0 \<le> loadingStep (loading_run s es) \<and> loadingStep (loading_run s es) \<le> 4"
proof (induction es arbitrary: s)
  case Nil
  then show ?case by simp
next
  case (Cons e es)
  from loading_step_range [OF Cons.prems, of e] Cons.IH [of "loading_step s e"]
  show ?case by simp
qed

lemma ticks_while_loading:
  "isLoading s \<Longrightarrow> 0 \<le> loadingStep s \<Longrightarrow> loadingStep s \<le> 4 \<Longrightarrow>
   loading_run s (replicate n Tick) = s\<lparr>loadingStep := min 4 (loadingStep s + int n)\<rparr>"
proof (induction n arbitrary: s)
  case 0
  then show ?case by simp
next
  case (Suc n)
  let ?t = "s\<lparr>loadingStep := tick_update (loadingStep s)\<rparr>"
  have step: "loading_step s Tick = ?t"
    using Suc.prems(1) by simp
  have "isLoading ?t" "0 \<le> loadingStep ?t" "loadingStep ?t \<le> 4"
    using Suc.prems by (simp_all add: tick_update_def)
  from Suc.IH [OF this]
  have "loading_run ?t (replicate n Tick) = ?t\<lparr>loadingStep := min 4 (loadingStep ?t + int n)\<rparr>" .
  moreover have "min 4 (loadingStep ?t + int n) = min 4 (loadingStep s + int (Suc n))"
    using Suc.prems by (simp add: tick_update_def add.assoc)
  ultimately show ?case
    using step by simp
qed

lemma initial_loading_range:
  "0 \<le> loadingStep (loading_run initial_loading es) \<and> loadingStep (loading_run initial_loading es) \<le> 4"
  by (rule loading_run_range) (simp_all add: initial_loading_def)

text \<open>
  Claim C2, as the code has it. The loading step is an integer between 0 and 4: after any
  sequence of events from the initial state it lies in that range; starting a generation
  sets it to 0; \<open>n\<close> ticks later it is \<open>min 4 n\<close>, so it counts up to 4 and stays there;
  the end of the generation, whether it succeeded or failed, sets it to 0 again.
\<close>
theorem loading_step_within_0_and_4:
  "0 \<le> loadingStep (loading_run initial_loading es) \<and>
   loadingStep (loading_run initial_loading es) \<le> 4 \<and>
   (\<not> isLoading s \<longrightarrow>
      loadingStep (start_generation s) = 0 \<and>
      loadingStep (loading_run (start_generation s) (replicate n Tick)) = min 4 (int n) \<and>
      loadingStep (finish_generation (loading_run (start_generation s) (replicate n Tick))) = 0)"
proof -
  have "loadingStep (start_generation s) = 0 \<and>
      loadingStep (loading_run (start_generation s) (replicate n Tick)) = min 4 (int n) \<and>
      loadingStep (finish_generation (loading_run (start_generation s) (replicate n Tick))) = 0"
    if idle: "\<not> isLoading s"
  proof -
    let ?t = "start_generation s"
    have t: "?t = s\<lparr>isLoading := True, loadingStep := 0\<rparr>"
      using idle by (simp add: start_generation_def loading_effect_def)
    have run: "loading_run ?t (replicate n Tick) = ?t\<lparr>loadingStep := min 4 (loadingStep ?t + int n)\<rparr>"
      by (rule ticks_while_loading) (simp_all add: t)
    show ?thesis
      by (simp add: run) (simp add: t finish_generation_def loading_effect_def)
  qed
  with initial_loading_range [of es] show ?thesis by blast
qed

text \<open>The statement at a run from the initial state, with seven ticks.\<close>
theorem loading_step_within_0_and_4_witness:
  "0 \<le> loadingStep (loading_run initial_loading [SetLoading True, Tick]) \<and>
   loadingStep (loading_run initial_loading [SetLoading True, Tick]) \<le> 4 \<and>
   \<not> isLoading initial_loading \<and>
   loadingStep (start_generation initial_loading) = 0 \<and>
   loadingStep (loading_run (start_generation initial_loading) (replicate 7 Tick)) = 4 \<and>
   loadingStep (finish_generation (loading_run (start_generation initial_loading) (replicate 7 Tick))) = 0"
  using loading_step_within_0_and_4 [of "[SetLoading True, Tick]" initial_loading 7]
  by (simp add: initial_loading_def)

text \<open>
  The step is not bounded by 3: the fourth tick of a generation moves it from 3 to 4, the
  value at which the view shows the last of its four steps as completed
  (\<^verbatim>\<open>completed={loadingStep > 3}\<close>).
\<close>
theorem loading_step_reaches_4:
  "loadingStep (loading_run initial_loading [SetLoading True, Tick, Tick, Tick, Tick]) = 4 \<and>
   \<not> loadingStep (loading_run initial_loading [SetLoading True, Tick, Tick, Tick, Tick]) \<le> 3"
  by (simp add: initial_loading_def loading_effect_def tick_update_def)

section \<open>Properties of the export helpers: file names\<close>

text \<open>
  The replacement leaves ASCII letters, digits and underscores only, the receiver on
  which \<open>toLowerCase\<close> is modelled; after it every code unit is a digit, a lower-case
  letter or an underscore.
\<close>

lemma replace_non_alnum_ascii: "c \<in> set (replace_non_alnum s) \<Longrightarrow> is_alnum c \<or> c = 0x5F"
  by (auto simp: replace_non_alnum_def)

lemma lower_unit_upper:
  assumes "0x41 \<le> c" "c \<le> 0x5A"
  shows "0x61 \<le> lower_unit c \<and> lower_unit c \<le> 0x7A"
proof -
  from assms have "65 \<le> unat c" "unat c \<le> 90"
    by (simp_all add: word_le_nat_alt)
  then have "unat (c + 0x20) = unat c + 32"
    by (simp add: unat_word_ariths)
  with \<open>65 \<le> unat c\<close> \<open>unat c \<le> 90\<close> have "97 \<le> unat (c + 0x20)" "unat (c + 0x20) \<le> 122"
    by simp_all
  then have "0x61 \<le> c + 0x20 \<and> c + 0x20 \<le> 0x7A"
    by (simp add: word_le_nat_alt)
  with assms show ?thesis by (simp add: lower_unit_def)
qed

lemma slug_units:
  assumes "c \<in> set (toLowerCase (replace_non_alnum s))"
  shows "(0x30 \<le> c \<and> c \<le> 0x39) \<or> (0x61 \<le> c \<and> c \<le> 0x7A) \<or> c = 0x5F"
proof -
  from assms obtain d where d: "d \<in> set (replace_non_alnum s)" "c = lower_unit d"
    by (auto simp: toLowerCase_def)
  from replace_non_alnum_ascii [OF d(1)] consider
      "0x30 \<le> d" "d \<le> 0x39" | "0x41 \<le> d" "d \<le> 0x5A" | "0x61 \<le> d" "d \<le> 0x7A" | "d = 0x5F"
    by (auto simp: is_alnum_def)
  then show ?thesis
  proof cases
    case 1
    then have "\<not> 0x41 \<le> d" by (simp add: word_le_nat_alt)
    with 1 d(2) show ?thesis by (simp add: lower_unit_def)
  next
    case 2
    from lower_unit_upper [OF this] d(2) show ?thesis by simp
  next
    case 3
    then have "\<not> d \<le> 0x5A" by (simp add: word_le_nat_alt)
    with 3 d(2) show ?thesis by (simp add: lower_unit_def)
  next
    case 4
    with d(2) show ?thesis by (simp add: lower_unit_def)
  qed
qed

lemma length_slug: "length (toLowerCase (replace_non_alnum nm)) = length nm"
  by (simp add: toLowerCase_def replace_non_alnum_def)

lemma nth_replace_non_alnum:
  "i < length nm \<Longrightarrow> replace_non_alnum nm ! i = (if is_alnum (nm ! i) then nm ! i else 0x5F)"
  by (simp add: replace_non_alnum_def)

lemma lower_unit_underscore: "lower_unit 0x5F = 0x5F"
  by (simp add: lower_unit_def)

lemma nth_slug:
  "i < length nm \<Longrightarrow>
   toLowerCase (replace_non_alnum nm) ! i = (if is_alnum (nm ! i) then lower_unit (nm ! i) else 0x5F)"
  by (simp add: toLowerCase_def replace_non_alnum_def lower_unit_underscore)

text \<open>
  Claim C3, as the code has it. Both file names are functions of their arguments. The
  name of the markup download is the creation name, with every code unit outside
  \<open>[A-Za-z0-9]\<close> replaced by an underscore and the letters lowered, followed by an
  underscore, the theme name as it is, and \<open>.html\<close>; the part made from the creation
  name holds digits, lower-case letters and underscores only. The name of the prompt download
  is \<open>PROMPT_\<close>, the theme name with every code unit outside \<open>[A-Za-z0-9]\<close>
  replaced by an underscore (the case kept), and \<open>.txt\<close>; the creation name has no part
  in it.
\<close>
theorem download_file_names:
  "handleDownloadHtml (Some c) h sfx =
     Some \<lparr>file_name = toLowerCase (replace_non_alnum (name c)) @ js ''_'' @ sfx @ js ''.html'',
           mime_type = js ''text/html'', content = h\<rparr> \<and>
   length (toLowerCase (replace_non_alnum (name c))) = length (name c) \<and>
   (\<forall>u\<in>set (toLowerCase (replace_non_alnum (name c))).
      (0x30 \<le> u \<and> u \<le> 0x39) \<or> (0x61 \<le> u \<and> u \<le> 0x7A) \<or> u = 0x5F) \<and>
   (\<forall>i<length (name c).
      toLowerCase (replace_non_alnum (name c)) ! i =
        (if is_alnum (name c ! i) then lower_unit (name c ! i) else 0x5F)) \<and>
   file_name (handleDownloadPrompt h theme) = js ''PROMPT_'' @ replace_non_alnum theme @ js ''.txt'' \<and>
   length (replace_non_alnum theme) = length theme \<and>
   (\<forall>i<length theme.
      replace_non_alnum theme ! i = (if is_alnum (theme ! i) then theme ! i else 0x5F))"
proof -
  have "handleDownloadHtml (Some c) h sfx =
     Some \<lparr>file_name = toLowerCase (replace_non_alnum (name c)) @ js ''_'' @ sfx @ js ''.html'',
           mime_type = js ''text/html'', content = h\<rparr>"
    by (simp add: handleDownloadHtml_def)
  moreover have "file_name (handleDownloadPrompt h theme) =
      js ''PROMPT_'' @ replace_non_alnum theme @ js ''.txt''"
    by (simp add: handleDownloadPrompt_def)
  moreover have "length (replace_non_alnum theme) = length theme"
    by (simp add: replace_non_alnum_def)
  ultimately show ?thesis
    using length_slug [of "name c"] nth_slug [of _ "name c"] nth_replace_non_alnum [of _ theme]
      slug_units [of _ "name c"]
    by blast
qed

text \<open>
  The statement at the creation name "My Cafe!" with an acute accent on the e (the one
  code unit U+00E9) and the theme name "Dark Mode".
\<close>
theorem download_file_names_witness:
  "handleDownloadHtml
     (Some \<lparr>name = js ''My Caf'' @ [0xE9] @ js ''!'', legacy_html = None, versions = None\<rparr>)
     (js ''<p>'') (js ''Dark Mode'') =
     Some \<lparr>file_name = js ''my_caf___Dark Mode.html'', mime_type = js ''text/html'',
           content = js ''<p>''\<rparr> \<and>
   toLowerCase (replace_non_alnum (js ''My Caf'' @ [0xE9] @ js ''!'')) ! 6 = 0x5F \<and>
   file_name (handleDownloadPrompt (js ''<p>'') (js ''Dark Mode'')) = js ''PROMPT_Dark_Mode.txt'' \<and>
   replace_non_alnum (js ''Dark Mode'') ! 4 = 0x5F"
  using download_file_names
    [of "\<lparr>name = js ''My Caf'' @ [0xE9] @ js ''!'', legacy_html = None, versions = None\<rparr>"
        "js ''<p>''" "js ''Dark Mode''" "js ''Dark Mode''"]
  by (simp add: js_def cu_def toLowerCase_def replace_non_alnum_def is_alnum_def lower_unit_def)

text \<open>
  For that creation name and theme name neither download is named
  \<open>my_caf__dark_mode\<close>: the markup goes to \<open>my_caf___Dark Mode.html\<close> and the
  prompt to \<open>PROMPT_Dark_Mode.txt\<close>.
\<close>
theorem download_base_name_differs:
  "handleDownloadHtml
     (Some \<lparr>name = js ''My Caf'' @ [0xE9] @ js ''!'', legacy_html = None, versions = None\<rparr>)
     [] (js ''Dark Mode'') =
     Some \<lparr>file_name = js ''my_caf___Dark Mode.html'', mime_type = js ''text/html'',
           content = []\<rparr> \<and>
   js ''my_caf___Dark Mode.html'' \<noteq> js ''my_caf__dark_mode.html'' \<and>
   file_name (handleDownloadPrompt [] (js ''Dark Mode'')) = js ''PROMPT_Dark_Mode.txt'' \<and>
   js ''PROMPT_Dark_Mode.txt'' \<noteq> js ''my_caf__dark_mode.txt''"
  by (simp add: handleDownloadHtml_def handleDownloadPrompt_def js_def cu_def toLowerCase_def
      replace_non_alnum_def is_alnum_def lower_unit_def)

section \<open>Properties of the preview state\<close>

text \<open>
  Claim C4, as the code has it. The preview learns of a reset through its \<open>creation\<close>
  prop, which becomes \<^verbatim>\<open>null\<close>. From any state this empties the stored versions and
  leaves the selection as it was. No theme is shown afterwards: the focused view shows
  nothing, and the gallery is empty when the selection was "show all" and absent
  otherwise. The state reached is the one the component starts in exactly when the
  selection was "show all".
\<close>
theorem reset_clears_versions:
  "activeVersions (creation_effect None st) = [] \<and>
   selectedVersionIndex (creation_effect None st) = selectedVersionIndex st \<and>
   focused_view loading (creation_effect None st) = None \<and>
   (selectedVersionIndex st = None \<and> gallery_view False (creation_effect None st) = Some [] \<or>
    selectedVersionIndex st \<noteq> None \<and> gallery_view False (creation_effect None st) = None) \<and>
   (creation_effect None st = initial_preview \<longleftrightarrow> selectedVersionIndex st = None)"
proof -
  have eq: "creation_effect None st =
      \<lparr>selectedVersionIndex = selectedVersionIndex st, activeVersions = []\<rparr>"
    by (cases st) (simp add: creation_effect_def)
  have "creation_effect None st = initial_preview \<longleftrightarrow> selectedVersionIndex st = None"
    by (simp add: eq initial_preview_def)
  moreover have "focused_view loading (creation_effect None st) = None"
    by (simp add: eq focused_view_def split: option.splits)
  moreover have
    "selectedVersionIndex st = None \<and> gallery_view False (creation_effect None st) = Some [] \<or>
     selectedVersionIndex st \<noteq> None \<and> gallery_view False (creation_effect None st) = None"
    by (cases "selectedVersionIndex st") (simp_all add: eq gallery_view_def)
  ultimately show ?thesis
    by (simp add: eq)
qed

text \<open>
  A reset while the third of three themes is focused leaves the selection at index 2: the
  state reached is not the one the component starts in.
\<close>
theorem reset_keeps_selection:
  "creation_effect None
     \<lparr>selectedVersionIndex = Some 2,
      activeVersions = [legacy_version (js ''a''), legacy_version (js ''b''), legacy_version (js ''c'')]\<rparr> =
     \<lparr>selectedVersionIndex = Some 2, activeVersions = []\<rparr> \<and>
   \<lparr>selectedVersionIndex = Some 2, activeVersions = []\<rparr> \<noteq> initial_preview"
  by (simp add: creation_effect_def initial_preview_def)

text \<open>
  Claim C6, as the code has it. A creation without a \<open>versions\<close> array whose \<open>html\<close>
  is a non-empty string becomes the single version "Standard Theme" wrapping that
  document, and the selection becomes index 0, whatever the state was before; the
  focused view then shows that version.
\<close>
theorem legacy_html_focuses_single_version:
  "versions c = None \<Longrightarrow> legacy_html c = Some h \<Longrightarrow> h \<noteq> [] \<Longrightarrow>
   creation_effect (Some c) st =
     \<lparr>selectedVersionIndex = Some 0,
      activeVersions =
        [\<lparr>themeName = js ''Standard Theme'', description = js ''Original Design'', html = h\<rparr>]\<rparr> \<and>
   focused_view False (creation_effect (Some c) st) =
     Some \<lparr>themeName = js ''Standard Theme'', description = js ''Original Design'', html = h\<rparr>"
  by (simp add: creation_effect_def has_versions_def has_html_def legacy_version_def
      focused_view_def)

text \<open>The statement at a legacy creation with the document \<open><p>\<close>.\<close>
theorem legacy_html_focuses_single_version_witness:
  "creation_effect
     (Some \<lparr>name = js ''old'', legacy_html = Some (js ''<p>''), versions = None\<rparr>)
     \<lparr>selectedVersionIndex = None, activeVersions = []\<rparr> =
     \<lparr>selectedVersionIndex = Some 0,
      activeVersions =
        [\<lparr>themeName = js ''Standard Theme'', description = js ''Original Design'',
          html = js ''<p>''\<rparr>]\<rparr>"
  using legacy_html_focuses_single_version
    [of "\<lparr>name = js ''old'', legacy_html = Some (js ''<p>''), versions = None\<rparr>" "js ''<p>''"
        "\<lparr>selectedVersionIndex = None, activeVersions = []\<rparr>"]
  by (simp add: js_def)

text \<open>
  A legacy creation whose \<open>html\<close> is the empty string takes neither branch of the
  effect (\<^verbatim>\<open>else if (creation.html)\<close>): from the initial state, the state stays
  without a version and the selection stays "show all".
\<close>
theorem empty_legacy_html_ignored:
  "creation_effect (Some \<lparr>name = js ''old'', legacy_html = Some [], versions = None\<rparr>)
     initial_preview = initial_preview \<and>
   activeVersions initial_preview = [] \<and> selectedVersionIndex initial_preview = None"
  by (simp add: creation_effect_def has_versions_def has_html_def initial_preview_def)

text \<open>
  Claim C7. When a creation with a non-empty \<open>versions\<close> array arrives, the versions are
  stored and the selection becomes "show all" (\<^verbatim>\<open>null\<close>), whatever the state was
  before; the gallery then shows all of them.
\<close>
theorem new_versions_show_all:
  "versions c = Some vs \<Longrightarrow> vs \<noteq> [] \<Longrightarrow>
   creation_effect (Some c) st = \<lparr>selectedVersionIndex = None, activeVersions = vs\<rparr> \<and>
   gallery_view False (creation_effect (Some c) st) = Some vs"
  by (simp add: creation_effect_def has_versions_def gallery_view_def)

text \<open>The statement at three versions arriving while index 1 is selected.\<close>
theorem new_versions_show_all_witness:
  "creation_effect
     (Some \<lparr>name = js ''shop'', legacy_html = None,
            versions = Some [legacy_version (js ''a''), legacy_version (js ''b''),
              legacy_version (js ''c'')]\<rparr>)
     \<lparr>selectedVersionIndex = Some 1, activeVersions = [legacy_version (js ''z'')]\<rparr> =
     \<lparr>selectedVersionIndex = None,
      activeVersions = [legacy_version (js ''a''), legacy_version (js ''b''),
        legacy_version (js ''c'')]\<rparr>"
  using new_versions_show_all
    [of "\<lparr>name = js ''shop'', legacy_html = None,
            versions = Some [legacy_version (js ''a''), legacy_version (js ''b''),
              legacy_version (js ''c'')]\<rparr>"
        "[legacy_version (js ''a''), legacy_version (js ''b''), legacy_version (js ''c'')]"
        "\<lparr>selectedVersionIndex = Some 1, activeVersions = [legacy_version (js ''z'')]\<rparr>"]
  by simp

text \<open>Every control the component renders for a theme carries an index of a stored version.\<close>

lemma rendered_index_valid:
  "rendered loading st (VersionTab k) \<or> rendered loading st (PreviewFlow k) \<or>
   rendered loading st (Thumbnail k p) \<Longrightarrow> k < length (activeVersions st)"
  by auto

text \<open>
  Claim C8. From any state, the click on the tab, on the preview button or on a
  thumbnail of a valid theme index \<open>k\<close> selects \<open>k\<close>, and the click on the compare tab
  selects "show all"; none of them changes the stored versions. After the first the
  focused view shows version \<open>k\<close>, after the last the gallery shows all versions.
\<close>
theorem selection_keeps_versions:
  "k < length (activeVersions st) \<Longrightarrow>
   selectedVersionIndex (on_click (VersionTab k) st) = Some k \<and>
   selectedVersionIndex (on_click (PreviewFlow k) st) = Some k \<and>
   selectedVersionIndex (on_click (Thumbnail k p) st) = Some k \<and>
   selectedVersionIndex (on_click CompareThemes st) = None \<and>
   activeVersions (on_click (VersionTab k) st) = activeVersions st \<and>
   activeVersions (on_click (PreviewFlow k) st) = activeVersions st \<and>
   activeVersions (on_click (Thumbnail k p) st) = activeVersions st \<and>
   activeVersions (on_click CompareThemes st) = activeVersions st \<and>
   focused_view False (on_click (VersionTab k) st) = Some (activeVersions st ! k) \<and>
   gallery_view False (on_click CompareThemes st) = Some (activeVersions st)"
  by (simp add: focused_view_def gallery_view_def)

text \<open>The statement at two stored versions and the tab of the second.\<close>
theorem selection_keeps_versions_witness:
  "selectedVersionIndex (on_click (VersionTab 1)
     \<lparr>selectedVersionIndex = None,
      activeVersions = [legacy_version (js ''a''), legacy_version (js ''b'')]\<rparr>) = Some 1 \<and>
   focused_view False (on_click (VersionTab 1)
     \<lparr>selectedVersionIndex = None,
      activeVersions = [legacy_version (js ''a''), legacy_version (js ''b'')]\<rparr>) =
     Some (legacy_version (js ''b'')) \<and>
   activeVersions (on_click CompareThemes
     \<lparr>selectedVersionIndex = None,
      activeVersions = [legacy_version (js ''a''), legacy_version (js ''b'')]\<rparr>) =
     [legacy_version (js ''a''), legacy_version (js ''b'')]"
  using selection_keeps_versions
    [of 1 "\<lparr>selectedVersionIndex = None,
      activeVersions = [legacy_version (js ''a''), legacy_version (js ''b'')]\<rparr>" 0]
  by simp

section \<open>Properties of the export helpers: the prompt text\<close>

text \<open>
  Both tags of the marker start with \<open><\<close> and hold no second one, so a tag cannot
  start before the end of a text it does not occur in.
\<close>
lemma prefix_overlap:
  assumes "prefix (a # p) (u @ a # q)" and "a \<notin> set p" and "u \<noteq> []"
  shows "prefix (a # p) u"
proof -
  from assms(1) consider "prefix (a # p) u" | us where "a # p = u @ us" "prefix us (a # q)"
    by (auto simp: prefix_append)
  then show ?thesis
  proof cases
    case 1
    then show ?thesis .
  next
    case 2
    from assms(3) 2(1) obtain u' where u: "u = a # u'" and p: "p = u' @ us"
      by (cases u) auto
    show ?thesis
    proof (cases us)
      case Nil
      with 2(1) show ?thesis by simp
    next
      case (Cons b bs)
      with 2(2) have "b = a" by simp
      with Cons p assms(2) show ?thesis by simp
    qed
  qed
qed

lemma js_includes_iff: "js_includes pat s \<longleftrightarrow> (\<exists>u v. s = u @ pat @ v)"
proof (induction s)
  case Nil
  then show ?case by (auto simp: prefix_def)
next
  case (Cons x xs)
  show ?case
  proof
    assume "js_includes pat (x # xs)"
    then consider "prefix pat (x # xs)" | "js_includes pat xs" by auto
    then show "\<exists>u v. x # xs = u @ pat @ v"
    proof cases
      case 1
      then obtain v where "x # xs = pat @ v" by (auto simp: prefix_def)
      then have "x # xs = [] @ pat @ v" by simp
      then show ?thesis by blast
    next
      case 2
      with Cons.IH obtain u v where "xs = u @ pat @ v" by blast
      then have "x # xs = (x # u) @ pat @ v" by simp
      then show ?thesis by blast
    qed
  next
    assume "\<exists>u v. x # xs = u @ pat @ v"
    then obtain u v where uv: "x # xs = u @ pat @ v" by blast
    show "js_includes pat (x # xs)"
    proof (cases u)
      case Nil
      with uv have "prefix pat (x # xs)" by (simp add: prefix_def)
      then show ?thesis by simp
    next
      case (Cons y ys)
      with uv have "xs = ys @ pat @ v" by simp
      with Cons.IH have "js_includes pat xs" by blast
      then show ?thesis by simp
    qed
  qed
qed

lemma not_includes_not_prefix: "\<not> js_includes pat s \<Longrightarrow> \<not> prefix pat s"
  by (cases s) auto

lemma prompt_open_head:
  "prompt_open = 0x3C # tl prompt_open \<and> 0x3C \<notin> set (tl prompt_open)"
  by (simp add: prompt_open_def js_def cu_def)

lemma prompt_close_head:
  "prompt_close = 0x3C # tl prompt_close \<and> 0x3C \<notin> set (tl prompt_close)"
  by (simp add: prompt_close_def js_def cu_def)

lemma no_early_prefix:
  assumes pat: "pat = a # p" "a \<notin> set p"
    and u: "u \<noteq> []" "\<not> js_includes pat u"
  shows "\<not> prefix pat (u @ pat @ rest)"
proof
  assume "prefix pat (u @ pat @ rest)"
  then have "prefix (a # p) (u @ a # (p @ rest))" using pat(1) by simp
  from prefix_overlap [OF this pat(2) u(1)] have "prefix pat u" using pat(1) by simp
  with not_includes_not_prefix [OF u(2)] show False by simp
qed

lemma lazy_until_first:
  assumes pat: "cl = a # p" "a \<notin> set p"
  shows "\<not> js_includes cl x \<Longrightarrow> lazy_until cl (x @ cl @ post) = Some x"
proof (induction x)
  case Nil
  have "cl @ post = a # (p @ post)" using pat(1) by simp
  moreover have "prefix cl (a # (p @ post))" using pat(1) by simp
  ultimately show ?case by simp
next
  case (Cons c x)
  from Cons.prems have rest: "\<not> js_includes cl x" by simp
  have "\<not> prefix cl ((c # x) @ cl @ post)"
    by (rule no_early_prefix [OF pat _ Cons.prems]) simp
  with Cons.IH [OF rest] show ?case by simp
qed

lemma match_at_open: "match_at (prompt_open @ rest) = lazy_until prompt_close rest"
  by (simp add: match_at_def)

lemma regex_match_Some: "match_at s = Some c \<Longrightarrow> regex_match s = Some c"
  by (cases s) simp_all

lemma regex_match_skip:
  "\<not> js_includes prompt_open pre \<Longrightarrow>
   regex_match (pre @ prompt_open @ rest) = regex_match (prompt_open @ rest)"
proof (induction pre)
  case Nil
  then show ?case by simp
next
  case (Cons c pre)
  from Cons.prems have rest: "\<not> js_includes prompt_open pre" by simp
  from prompt_open_head have pat: "prompt_open = 0x3C # tl prompt_open" "0x3C \<notin> set (tl prompt_open)"
    by simp_all
  have "\<not> prefix prompt_open ((c # pre) @ prompt_open @ rest)"
    by (rule no_early_prefix [OF pat _ Cons.prems]) simp
  then have "match_at ((c # pre) @ prompt_open @ rest) = None"
    by (simp add: match_at_def)
  with Cons.IH [OF rest] show ?case by simp
qed

lemma regex_match_first_marker:
  assumes "\<not> js_includes prompt_open pre" and "\<not> js_includes prompt_close x"
  shows "regex_match (pre @ prompt_open @ x @ prompt_close @ post) = Some x"
proof -
  from prompt_close_head have pat: "prompt_close = 0x3C # tl prompt_close" "0x3C \<notin> set (tl prompt_close)"
    by simp_all
  have "match_at (prompt_open @ x @ prompt_close @ post) = Some x"
    using lazy_until_first [OF pat assms(2)] by (simp add: match_at_open)
  then have "regex_match (prompt_open @ x @ prompt_close @ post) = Some x"
    by (rule regex_match_Some)
  with regex_match_skip [OF assms(1)] show ?thesis by simp
qed

text \<open>What the search returns is the inner text of a marker of the document.\<close>
lemma lazy_until_sound: "lazy_until cl s = Some c \<Longrightarrow> \<exists>post. s = c @ cl @ post"
proof (induction s arbitrary: c)
  case Nil
  then show ?case by (auto split: if_splits)
next
  case (Cons x xs)
  show ?case
  proof (cases "prefix cl (x # xs)")
    case True
    with Cons.prems have "c = []" by simp
    with True show ?thesis by (auto simp: prefix_def)
  next
    case False
    with Cons.prems obtain c' where c': "lazy_until cl xs = Some c'" "c = x # c'"
      by auto
    from Cons.IH [OF c'(1)] c'(2) show ?thesis by auto
  qed
qed

lemma match_at_sound:
  "match_at s = Some c \<Longrightarrow> \<exists>post. s = prompt_open @ c @ prompt_close @ post"
proof -
  assume m: "match_at s = Some c"
  then have p: "prefix prompt_open s" and l: "lazy_until prompt_close (drop (length prompt_open) s) = Some c"
    by (auto simp: match_at_def split: if_splits)
  from p obtain r where r: "s = prompt_open @ r" by (auto simp: prefix_def)
  with l have "lazy_until prompt_close r = Some c" by simp
  from lazy_until_sound [OF this] r show ?thesis by auto
qed

lemma regex_match_sound:
  "regex_match s = Some c \<Longrightarrow> \<exists>pre post. s = pre @ prompt_open @ c @ prompt_close @ post"
proof (induction s)
  case Nil
  from match_at_sound [of "[]" c] Nil show ?case by simp
next
  case (Cons x xs)
  show ?case
  proof (cases "match_at (x # xs)")
    case None
    with Cons.prems have "regex_match xs = Some c" by simp
    from Cons.IH [OF this] obtain pre post where "xs = pre @ prompt_open @ c @ prompt_close @ post"
      by blast
    then have "x # xs = (x # pre) @ prompt_open @ c @ prompt_close @ post" by simp
    then show ?thesis by blast
  next
    case (Some d)
    with Cons.prems have "d = c" by simp
    with Some match_at_sound [of "x # xs" c] obtain post where
      "x # xs = [] @ prompt_open @ c @ prompt_close @ post" by auto
    then show ?thesis by blast
  qed
qed

lemma regex_match_absent:
  "\<not> (\<exists>pre x post. s = pre @ prompt_open @ x @ prompt_close @ post) \<Longrightarrow> regex_match s = None"
  using regex_match_sound [of s] by (cases "regex_match s") auto

text \<open>
  What \<open>trim\<close> returns: the text without a run of white space at its start and one at
  its end, and neither starting nor ending in white space.
\<close>

lemma trim_parts:
  "\<exists>l r. s = l @ trim s @ r \<and> list_all is_space l \<and> list_all is_space r"
proof -
  let ?a = "dropWhile is_space s"
  have 1: "s = takeWhile is_space s @ ?a" by simp
  have "?a = rev (dropWhile is_space (rev ?a)) @ rev (takeWhile is_space (rev ?a))"
    by (metis rev_append rev_rev_ident takeWhile_dropWhile_id)
  then have "?a = trim s @ rev (takeWhile is_space (rev ?a))"
    by (simp add: trim_def)
  with 1 have "s = takeWhile is_space s @ trim s @ rev (takeWhile is_space (rev ?a))"
    by simp
  moreover have "list_all is_space (takeWhile is_space s)"
    by (simp add: list_all_iff) (meson set_takeWhileD)
  moreover have "list_all is_space (rev (takeWhile is_space (rev ?a)))"
    by (simp add: list_all_iff) (meson set_takeWhileD)
  ultimately show ?thesis by blast
qed

lemma trim_ends:
  "trim s \<noteq> [] \<Longrightarrow> \<not> is_space (hd (trim s)) \<and> \<not> is_space (last (trim s))"
proof -
  assume ne: "trim s \<noteq> []"
  let ?a = "dropWhile is_space s"
  let ?b = "dropWhile is_space (rev ?a)"
  from ne have b: "?b \<noteq> []" by (simp add: trim_def)
  then have hb: "\<not> is_space (hd ?b)" by (rule hd_dropWhile)
  have "last (trim s) = hd ?b" using b by (simp add: trim_def last_rev)
  with hb have l: "\<not> is_space (last (trim s))" by simp
  have a: "?a \<noteq> []"
  proof
    assume "?a = []"
    then have "?b = []" by (metis dropWhile.simps(1) rev.simps(1))
    with b show False by simp
  qed
  then have ha: "\<not> is_space (hd ?a)" by (rule hd_dropWhile)
  have "hd (trim s) = last ?b" using b by (simp add: trim_def hd_rev)
  moreover have "last ?b = last (rev ?a)"
    using b by (metis last_appendR takeWhile_dropWhile_id)
  moreover have "last (rev ?a) = hd ?a" using a by (simp add: last_rev)
  ultimately show ?thesis using ha l by simp
qed

text \<open>
  Claim C5, as the code has it. The export is a total function of the markup. When the
  markup is \<open>pre\<close>, the opening tag, \<open>x\<close>, the closing tag and \<open>post\<close>, where this
  opening tag is the first of the markup, \<open>x\<close> holds no closing tag and \<open>x\<close> is not
  empty, the exported text is \<open>x\<close> trimmed. When no part of the markup is an opening
  tag, a text and a closing tag, the exported text is the placeholder
  "Design prompt not found in the generated file.".
\<close>
theorem export_prompt_text:
  "(\<not> js_includes prompt_open pre \<and> \<not> js_includes prompt_close x \<and> x \<noteq> [] \<longrightarrow>
      content (handleDownloadPrompt (pre @ prompt_open @ x @ prompt_close @ post) theme) = trim x) \<and>
   (\<not> (\<exists>pre x post. html_text = pre @ prompt_open @ x @ prompt_close @ post) \<longrightarrow>
      content (handleDownloadPrompt html_text theme) = prompt_placeholder)"
  by (simp add: handleDownloadPrompt_def promptText_def regex_match_first_marker
      regex_match_absent)

lemma no_marker_without_open:
  "\<not> js_includes prompt_open s \<Longrightarrow>
   \<not> (\<exists>pre x post. s = pre @ prompt_open @ x @ prompt_close @ post)"
  by (auto simp: js_includes_iff)

text \<open>The statement at a body holding the prompt " Use teal. " and at an empty body.\<close>
theorem export_prompt_text_witness:
  "content (handleDownloadPrompt
     (js ''<body>'' @ prompt_open @ js '' Use teal. '' @ prompt_close @ js ''</body>'') (js ''T'')) =
     js ''Use teal.'' \<and>
   content (handleDownloadPrompt (js ''<body></body>'') (js ''T'')) =
     js ''Design prompt not found in the generated file.''"
proof -
  have a: "\<not> js_includes prompt_open (js ''<body>'')"
    by (simp add: prompt_open_def js_def cu_def)
  have b: "\<not> js_includes prompt_close (js '' Use teal. '')"
    by (simp add: prompt_close_def js_def cu_def)
  have c: "js '' Use teal. '' \<noteq> []"
    by (simp add: js_def)
  have d: "\<not> (\<exists>pre x post. js ''<body></body>'' = pre @ prompt_open @ x @ prompt_close @ post)"
    by (rule no_marker_without_open) (simp add: prompt_open_def js_def cu_def)
  have t: "trim (js '' Use teal. '') = js ''Use teal.''"
    by (simp add: trim_def is_space_def js_def cu_def)
  from export_prompt_text [of "js ''<body>''" "js '' Use teal. ''" "js ''</body>''" "js ''T''"
      "js ''<body></body>''"] a b c d t
  show ?thesis by (simp add: prompt_placeholder_def)
qed

text \<open>
  A marker with nothing between its tags does not export its inner text, the empty
  string, but the placeholder.
\<close>
theorem empty_prompt_is_not_exported:
  "content (handleDownloadPrompt (prompt_open @ [] @ prompt_close) (js ''T'')) = prompt_placeholder \<and>
   prompt_placeholder \<noteq> trim []"
proof -
  have "\<not> js_includes prompt_open []" "\<not> js_includes prompt_close []"
    by (simp_all add: prompt_open_def prompt_close_def js_def)
  from regex_match_first_marker [OF this, of "[]"]
  have "regex_match (prompt_open @ [] @ prompt_close) = Some []" by simp
  then show ?thesis
    by (simp add: handleDownloadPrompt_def promptText_def) (simp add: prompt_placeholder_def trim_def js_def)
qed

text \<open>
  Claim C9, as the code has it. When the first marker of the markup (no opening tag
  occurs before it) has the empty string between its opening and its closing tag, the
  exported text is the placeholder, which is not empty: the empty capture is falsy, and
  the export takes the branch of the missing marker.
\<close>
theorem empty_capture_gives_placeholder:
  "\<not> js_includes prompt_open pre \<Longrightarrow>
   content (handleDownloadPrompt (pre @ prompt_open @ prompt_close @ post) theme) = prompt_placeholder \<and>
   prompt_placeholder \<noteq> []"
proof -
  assume pre: "\<not> js_includes prompt_open pre"
  have "\<not> js_includes prompt_close []"
    by (simp add: prompt_close_def js_def)
  from regex_match_first_marker [OF pre this, of post]
  have "regex_match (pre @ prompt_open @ prompt_close @ post) = Some []" by simp
  then show ?thesis
    by (simp add: handleDownloadPrompt_def promptText_def) (simp add: prompt_placeholder_def js_def)
qed

text \<open>The statement at a body holding the empty marker.\<close>
theorem empty_capture_gives_placeholder_witness:
  "content (handleDownloadPrompt (js ''<body>'' @ prompt_open @ prompt_close @ js ''</body>'') (js ''T'')) =
     js ''Design prompt not found in the generated file.''"
proof -
  have a: "\<not> js_includes prompt_open (js ''<body>'')"
    by (simp add: prompt_open_def js_def cu_def)
  from empty_capture_gives_placeholder [OF a, of "js ''</body>''" "js ''T''"]
  show ?thesis by (simp add: prompt_placeholder_def)
qed

text \<open>
  An empty marker that is not the first of the markup is not reached: the search returns
  the first match, so a markup holding the marker of the prompt "A" and then an empty
  marker exports "A", not the placeholder.
\<close>
theorem later_empty_marker_is_not_reached:
  "content (handleDownloadPrompt
     (prompt_open @ js ''A'' @ prompt_close @ prompt_open @ prompt_close) (js ''T'')) = js ''A'' \<and>
   js ''A'' \<noteq> prompt_placeholder"
proof -
  have a: "\<not> js_includes prompt_open []"
    by (simp add: prompt_open_def js_def)
  have b: "\<not> js_includes prompt_close (js ''A'')"
    by (simp add: prompt_close_def js_def cu_def)
  from regex_match_first_marker [OF a b, of "prompt_open @ prompt_close"]
  have "regex_match (prompt_open @ js ''A'' @ prompt_close @ prompt_open @ prompt_close) =
      Some (js ''A'')"
    by simp
  moreover have "trim (js ''A'') = js ''A''"
    by (simp add: trim_def is_space_def js_def cu_def)
  moreover have "js ''A'' \<noteq> []" "js ''A'' \<noteq> prompt_placeholder"
    by (simp_all add: prompt_placeholder_def js_def)
  ultimately show ?thesis
    by (simp add: handleDownloadPrompt_def promptText_def)
qed

section \<open>Properties of the generation client\<close>

text \<open>
  The fuel of the parser is enough: a parse that succeeds with some fuel succeeds with
  the same result on twice the number of code units it consumes, so \<open>JSON_parse\<close>
  reports a syntax error only where no fuel at all gives a value followed by white
  space.
\<close>

lemma parse_value_Suc: "parse_value (Suc n) s = value_body (parse_members n) (parse_elements n) s"
  by (simp add: value_body_def)

lemma parse_elements_Suc:
  "parse_elements (Suc n) s = elements_body (parse_value n) (parse_elements n) s"
  by (simp add: elements_body_def)

lemma parse_members_Suc:
  "parse_members (Suc n) s = members_body (parse_value n) (parse_members n) s"
  by (simp add: members_body_def)

lemma length_skip_ws: "length (skip_ws s) \<le> length s"
  by (simp add: skip_ws_def length_dropWhile_le)

lemma skip_ws_Cons: "skip_ws s = c # r \<Longrightarrow> length r < length s"
  using length_skip_ws [of s] by simp

lemma parse_chars_shorter: "parse_chars s = Some (k, r) \<Longrightarrow> length r < length s"
proof (induction s arbitrary: k r rule: parse_chars.induct)
  case 1
  then show ?case by simp
next
  case (2 c s)
  show ?case
  proof (cases "c = 0x22")
    case True
    with "2.prems" show ?thesis by simp
  next
    case quote: False
    show ?thesis
    proof (cases "c = 0x5C")
      case False
      with quote "2.prems" obtain k' where "parse_chars s = Some (k', r)" "\<not> c < 0x20"
        by (auto split: if_splits)
      with "2.IH"(3) [OF quote False] show ?thesis by fastforce
    next
      case True
      with quote "2.prems" obtain e s1 where s: "s = e # s1"
        by (cases s) auto
      show ?thesis
      proof (cases "e = 0x75")
        case False
        with quote True s "2.prems" obtain u k' where
          "escape e = Some u" "parse_chars s1 = Some (k', r)"
          by (auto split: option.splits)
        with "2.IH"(2) [OF quote True s False] show ?thesis using s by fastforce
      next
        case u: True
        with quote True s "2.prems" obtain a b c' d s2 u' k' where
          s1: "s1 = a # b # c' # d # s2" and "hex4 a b c' d = Some u'"
          and "parse_chars s2 = Some (k', r)"
          by (auto split: list.splits option.splits)
        with "2.IH"(1) [OF quote True s u s1] show ?thesis using s by fastforce
      qed
    qed
  qed
qed

lemma digits_shorter: "digits s = Some (d, r) \<Longrightarrow> length r < length s"
proof -
  assume "digits s = Some (d, r)"
  then have "takeWhile is_digit s \<noteq> []" and r: "r = dropWhile is_digit s"
    by (auto simp: digits_def split: if_splits)
  moreover have "length (takeWhile is_digit s) + length (dropWhile is_digit s) = length s"
    by (metis length_append takeWhile_dropWhile_id)
  ultimately show ?thesis by (cases "takeWhile is_digit s") auto
qed

lemma parse_int_part_shorter: "parse_int_part s = Some (d, r) \<Longrightarrow> length r < length s"
  by (auto simp: parse_int_part_def split: list.splits if_splits dest: digits_shorter)

lemma parse_frac_shorter: "parse_frac s = Some (d, r) \<Longrightarrow> length r \<le> length s"
  by (auto simp: parse_frac_def split: list.splits if_splits dest: digits_shorter)

lemma parse_exp_shorter: "parse_exp s = Some (d, r) \<Longrightarrow> length r \<le> length s"
  by (auto simp: parse_exp_def split: list.splits if_splits dest: digits_shorter)

lemma parse_number_shorter: "parse_number s = Some (l, r) \<Longrightarrow> length r < length s"
proof -
  assume p: "parse_number s = Some (l, r)"
  define s1 where "s1 = (case s of m # r \<Rightarrow> if m = 0x2D then r else s | [] \<Rightarrow> s)"
  have s1: "length s1 \<le> length s"
    by (simp add: s1_def split: list.splits)
  from p obtain ip s2 fp s3 ep where
    "parse_int_part s1 = Some (ip, s2)" "parse_frac s2 = Some (fp, s3)"
    "parse_exp s3 = Some (ep, r)"
    by (auto simp: parse_number_def s1_def split: list.splits if_splits option.splits)
  from parse_int_part_shorter [OF this(1)] parse_frac_shorter [OF this(2)]
    parse_exp_shorter [OF this(3)] s1
  show ?thesis by simp
qed

lemma value_body_fuel:
  assumes pm: "\<And>s' x r'. pm s' = Some (x, r') \<Longrightarrow>
      length r' < length s' \<and> (\<forall>m. 2 * (length s' - length r') + 1 \<le> m \<longrightarrow> PM m s' = Some (x, r'))"
    and pe: "\<And>s' x r'. pe s' = Some (x, r') \<Longrightarrow>
      length r' < length s' \<and> (\<forall>m. 2 * (length s' - length r') + 1 \<le> m \<longrightarrow> PE m s' = Some (x, r'))"
    and body: "value_body pm pe s = Some (v, r)"
  shows "length r < length s \<and>
    (\<forall>m. 2 * (length s - length r) \<le> Suc m \<longrightarrow> value_body (PM m) (PE m) s = Some (v, r))"
proof -
  from body obtain c r0 where ws: "skip_ws s = c # r0"
    by (cases "skip_ws s") (auto simp: value_body_def)
  have r0: "length r0 < length s" by (rule skip_ws_Cons [OF ws])
  consider (obj) "c = 0x7B" | (arr) "c \<noteq> 0x7B" "c = 0x5B" | (other) "c \<noteq> 0x7B" "c \<noteq> 0x5B"
    by blast
  then show ?thesis
  proof cases
    case obj
    with body ws obtain d r1 where ws1: "skip_ws r0 = d # r1"
      by (cases "skip_ws r0") (auto simp: value_body_def)
    show ?thesis
    proof (cases "d = 0x7D")
      case True
      with body ws obj ws1 have "v = JObject []" "r = r1" by (auto simp: value_body_def)
      with skip_ws_Cons [OF ws1] r0 ws obj ws1 True show ?thesis
        by (auto simp: value_body_def)
    next
      case False
      with body ws obj ws1 obtain ms where ms: "pm r0 = Some (ms, r)" "v = JObject ms"
        by (auto simp: value_body_def)
      from pm [OF ms(1)] have lt: "length r < length r0"
        and fuel: "\<And>m. 2 * (length r0 - length r) + 1 \<le> m \<Longrightarrow> PM m r0 = Some (ms, r)"
        by blast+
      have "value_body (PM m) (PE m) s = Some (v, r)" if "2 * (length s - length r) \<le> Suc m" for m
      proof -
        from that lt r0 have "2 * (length r0 - length r) + 1 \<le> m" by linarith
        from fuel [OF this] ws obj ws1 False ms(2) show ?thesis
          by (simp add: value_body_def)
      qed
      with lt r0 show ?thesis by simp
    qed
  next
    case arr
    with body ws obtain d r1 where ws1: "skip_ws r0 = d # r1"
      by (cases "skip_ws r0") (auto simp: value_body_def)
    show ?thesis
    proof (cases "d = 0x5D")
      case True
      with body ws arr ws1 have "v = JArray []" "r = r1" by (auto simp: value_body_def)
      with skip_ws_Cons [OF ws1] r0 ws arr ws1 True show ?thesis
        by (auto simp: value_body_def)
    next
      case False
      with body ws arr ws1 obtain vs where vs: "pe r0 = Some (vs, r)" "v = JArray vs"
        by (auto simp: value_body_def)
      from pe [OF vs(1)] have lt: "length r < length r0"
        and fuel: "\<And>m. 2 * (length r0 - length r) + 1 \<le> m \<Longrightarrow> PE m r0 = Some (vs, r)"
        by blast+
      have "value_body (PM m) (PE m) s = Some (v, r)" if "2 * (length s - length r) \<le> Suc m" for m
      proof -
        from that lt r0 have "2 * (length r0 - length r) + 1 \<le> m" by linarith
        from fuel [OF this] ws arr ws1 False vs(2) show ?thesis
          by (simp add: value_body_def)
      qed
      with lt r0 show ?thesis by simp
    qed
  next
    case other
    have same: "value_body pm' pe' s = value_body pm pe s" for pm' pe'
      using ws other by (simp add: value_body_def)
    have "length r < length s"
    proof -
      from body ws other consider
          (str) k where "parse_chars r0 = Some (k, r)"
        | (kw) "length r \<le> length r0"
        | (num) l where "parse_number (c # r0) = Some (l, r)"
        by (auto simp: value_body_def split: if_splits)
      then have "length r < length (c # r0)"
      proof cases
        case str
        from parse_chars_shorter [OF this] show ?thesis by simp
      next
        case kw
        then show ?thesis by simp
      next
        case num
        from parse_number_shorter [OF this] show ?thesis .
      qed
      with r0 show ?thesis by simp
    qed
    with same body show ?thesis by simp
  qed
qed

lemma elements_body_fuel:
  assumes pv: "\<And>s' x r'. pv s' = Some (x, r') \<Longrightarrow>
      length r' < length s' \<and> (\<forall>m. 2 * (length s' - length r') \<le> m \<longrightarrow> PV m s' = Some (x, r'))"
    and pe: "\<And>s' x r'. pe s' = Some (x, r') \<Longrightarrow>
      length r' < length s' \<and> (\<forall>m. 2 * (length s' - length r') + 1 \<le> m \<longrightarrow> PE m s' = Some (x, r'))"
    and body: "elements_body pv pe s = Some (vs, r)"
  shows "length r < length s \<and>
    (\<forall>m. 2 * (length s - length r) + 1 \<le> Suc m \<longrightarrow> elements_body (PV m) (PE m) s = Some (vs, r))"
proof -
  from body obtain v r1 where v: "pv s = Some (v, r1)"
    by (cases "pv s") (auto simp: elements_body_def)
  from pv [OF v] have r1: "length r1 < length s"
    and fuel_v: "\<And>m. 2 * (length s - length r1) \<le> m \<Longrightarrow> PV m s = Some (v, r1)"
    by blast+
  from body v obtain c r2 where ws: "skip_ws r1 = c # r2"
    by (cases "skip_ws r1") (auto simp: elements_body_def)
  have r2: "length r2 < length r1" by (rule skip_ws_Cons [OF ws])
  show ?thesis
  proof (cases "c = 0x2C")
    case True
    with body v ws obtain vs' where vs': "pe r2 = Some (vs', r)" "vs = v # vs'"
      by (auto simp: elements_body_def)
    from pe [OF vs'(1)] have lt: "length r < length r2"
      and fuel_e: "\<And>m. 2 * (length r2 - length r) + 1 \<le> m \<Longrightarrow> PE m r2 = Some (vs', r)"
      by blast+
    have "elements_body (PV m) (PE m) s = Some (vs, r)"
      if "2 * (length s - length r) + 1 \<le> Suc m" for m
    proof -
      from that lt r2 r1 have a: "2 * (length s - length r1) \<le> m" by linarith
      from that lt r2 r1 have b: "2 * (length r2 - length r) + 1 \<le> m" by linarith
      from fuel_v [OF a] fuel_e [OF b] ws True vs'(2) show ?thesis
        by (simp add: elements_body_def)
    qed
    with lt r2 r1 show ?thesis by simp
  next
    case False
    with body v ws have c: "c = 0x5D" and res: "vs = [v]" "r = r2"
      by (auto simp: elements_body_def split: if_splits)
    have "elements_body (PV m) (PE m) s = Some (vs, r)"
      if "2 * (length s - length r) + 1 \<le> Suc m" for m
    proof -
      from that [unfolded res(2)] r2 r1 have "2 * (length s - length r1) \<le> m" by linarith
      from fuel_v [OF this] ws c res show ?thesis
        by (simp add: elements_body_def)
    qed
    with res r2 r1 show ?thesis by simp
  qed
qed

lemma members_body_fuel:
  assumes pv: "\<And>s' x r'. pv s' = Some (x, r') \<Longrightarrow>
      length r' < length s' \<and> (\<forall>m. 2 * (length s' - length r') \<le> m \<longrightarrow> PV m s' = Some (x, r'))"
    and pm: "\<And>s' x r'. pm s' = Some (x, r') \<Longrightarrow>
      length r' < length s' \<and> (\<forall>m. 2 * (length s' - length r') + 1 \<le> m \<longrightarrow> PM m s' = Some (x, r'))"
    and body: "members_body pv pm s = Some (ms, r)"
  shows "length r < length s \<and>
    (\<forall>m. 2 * (length s - length r) + 1 \<le> Suc m \<longrightarrow> members_body (PV m) (PM m) s = Some (ms, r))"
proof -
  from body obtain q r0 where ws: "skip_ws s = q # r0"
    by (cases "skip_ws s") (auto simp: members_body_def)
  with body have q: "q = 0x22"
    by (auto simp: members_body_def split: if_splits)
  have r0: "length r0 < length s" by (rule skip_ws_Cons [OF ws])
  from body ws q obtain k r1 where k: "parse_chars r0 = Some (k, r1)"
    by (cases "parse_chars r0") (auto simp: members_body_def)
  have r1: "length r1 < length r0" by (rule parse_chars_shorter [OF k])
  from body ws q k obtain c r2 where ws1: "skip_ws r1 = c # r2"
    by (cases "skip_ws r1") (auto simp: members_body_def)
  with body ws q k have c: "c = 0x3A"
    by (auto simp: members_body_def split: if_splits)
  have r2: "length r2 < length r1" by (rule skip_ws_Cons [OF ws1])
  from body ws q k ws1 c obtain v r3 where v: "pv r2 = Some (v, r3)"
    by (cases "pv r2") (auto simp: members_body_def)
  from pv [OF v] have r3: "length r3 < length r2"
    and fuel_v: "\<And>m. 2 * (length r2 - length r3) \<le> m \<Longrightarrow> PV m r2 = Some (v, r3)"
    by blast+
  from body ws q k ws1 c v obtain d r4 where ws3: "skip_ws r3 = d # r4"
    by (cases "skip_ws r3") (auto simp: members_body_def)
  have r4: "length r4 < length r3" by (rule skip_ws_Cons [OF ws3])
  show ?thesis
  proof (cases "d = 0x2C")
    case True
    with body ws q k ws1 c v ws3 obtain ms' where ms': "pm r4 = Some (ms', r)" "ms = (k, v) # ms'"
      by (auto simp: members_body_def)
    from pm [OF ms'(1)] have lt: "length r < length r4"
      and fuel_m: "\<And>m. 2 * (length r4 - length r) + 1 \<le> m \<Longrightarrow> PM m r4 = Some (ms', r)"
      by blast+
    have "members_body (PV m) (PM m) s = Some (ms, r)"
      if "2 * (length s - length r) + 1 \<le> Suc m" for m
    proof -
      from that lt r4 r3 r2 r1 r0 have a: "2 * (length r2 - length r3) \<le> m" by linarith
      from that lt r4 r3 r2 r1 r0 have b: "2 * (length r4 - length r) + 1 \<le> m" by linarith
      from fuel_v [OF a] fuel_m [OF b] ws q k ws1 c ws3 True ms'(2) show ?thesis
        by (simp add: members_body_def)
    qed
    with lt r4 r3 r2 r1 r0 show ?thesis by simp
  next
    case False
    with body ws q k ws1 c v ws3 have d: "d = 0x7D" and res: "ms = [(k, v)]" "r = r4"
      by (auto simp: members_body_def split: if_splits)
    have "members_body (PV m) (PM m) s = Some (ms, r)"
      if "2 * (length s - length r) + 1 \<le> Suc m" for m
    proof -
      from that [unfolded res(2)] r4 r3 r2 r1 r0 have "2 * (length r2 - length r3) \<le> m" by linarith
      from fuel_v [OF this] ws q k ws1 c ws3 d res show ?thesis
        by (simp add: members_body_def)
    qed
    with res r4 r3 r2 r1 r0 show ?thesis by simp
  qed
qed

lemma parse_fuel:
  "(\<forall>s v r. parse_value n s = Some (v, r) \<longrightarrow>
      length r < length s \<and>
      (\<forall>m. 2 * (length s - length r) \<le> m \<longrightarrow> parse_value m s = Some (v, r))) \<and>
   (\<forall>s vs r. parse_elements n s = Some (vs, r) \<longrightarrow>
      length r < length s \<and>
      (\<forall>m. 2 * (length s - length r) + 1 \<le> m \<longrightarrow> parse_elements m s = Some (vs, r))) \<and>
   (\<forall>s ms r. parse_members n s = Some (ms, r) \<longrightarrow>
      length r < length s \<and>
      (\<forall>m. 2 * (length s - length r) + 1 \<le> m \<longrightarrow> parse_members m s = Some (ms, r)))"
proof (induction n)
  case 0
  show ?case by simp
next
  case (Suc n)
  then have pv: "\<And>s' x r'. parse_value n s' = Some (x, r') \<Longrightarrow>
      length r' < length s' \<and>
      (\<forall>m. 2 * (length s' - length r') \<le> m \<longrightarrow> parse_value m s' = Some (x, r'))"
    and pe: "\<And>s' x r'. parse_elements n s' = Some (x, r') \<Longrightarrow>
      length r' < length s' \<and>
      (\<forall>m. 2 * (length s' - length r') + 1 \<le> m \<longrightarrow> parse_elements m s' = Some (x, r'))"
    and pm: "\<And>s' x r'. parse_members n s' = Some (x, r') \<Longrightarrow>
      length r' < length s' \<and>
      (\<forall>m. 2 * (length s' - length r') + 1 \<le> m \<longrightarrow> parse_members m s' = Some (x, r'))"
    by blast+
  have "length r < length s \<and>
      (\<forall>m. 2 * (length s - length r) \<le> m \<longrightarrow> parse_value m s = Some (v, r))"
    if "parse_value (Suc n) s = Some (v, r)" for s v r
  proof -
    from that have "value_body (parse_members n) (parse_elements n) s = Some (v, r)"
      by (simp only: parse_value_Suc)
    from value_body_fuel [of "parse_members n" parse_members "parse_elements n" parse_elements,
        OF pm pe this]
    have lt: "length r < length s"
      and fuel: "\<And>m. 2 * (length s - length r) \<le> Suc m \<Longrightarrow> parse_value (Suc m) s = Some (v, r)"
      by (simp_all only: parse_value_Suc)
    have "parse_value m s = Some (v, r)" if "2 * (length s - length r) \<le> m" for m
      using that lt fuel [of "m - 1"] by (cases m) simp_all
    with lt show ?thesis by blast
  qed
  moreover have "length r < length s \<and>
      (\<forall>m. 2 * (length s - length r) + 1 \<le> m \<longrightarrow> parse_elements m s = Some (vs, r))"
    if "parse_elements (Suc n) s = Some (vs, r)" for s vs r
  proof -
    from that have "elements_body (parse_value n) (parse_elements n) s = Some (vs, r)"
      by (simp only: parse_elements_Suc)
    from elements_body_fuel [of "parse_value n" parse_value "parse_elements n" parse_elements,
        OF pv pe this]
    have lt: "length r < length s"
      and fuel: "\<And>m. 2 * (length s - length r) + 1 \<le> Suc m \<Longrightarrow>
        parse_elements (Suc m) s = Some (vs, r)"
      by (simp_all only: parse_elements_Suc)
    have "parse_elements m s = Some (vs, r)" if "2 * (length s - length r) + 1 \<le> m" for m
      using that lt fuel [of "m - 1"] by (cases m) simp_all
    with lt show ?thesis by blast
  qed
  moreover have "length r < length s \<and>
      (\<forall>m. 2 * (length s - length r) + 1 \<le> m \<longrightarrow> parse_members m s = Some (ms, r))"
    if "parse_members (Suc n) s = Some (ms, r)" for s ms r
  proof -
    from that have "members_body (parse_value n) (parse_members n) s = Some (ms, r)"
      by (simp only: parse_members_Suc)
    from members_body_fuel [of "parse_value n" parse_value "parse_members n" parse_members,
        OF pv pm this]
    have lt: "length r < length s"
      and fuel: "\<And>m. 2 * (length s - length r) + 1 \<le> Suc m \<Longrightarrow>
        parse_members (Suc m) s = Some (ms, r)"
      by (simp_all only: parse_members_Suc)
    have "parse_members m s = Some (ms, r)" if "2 * (length s - length r) + 1 \<le> m" for m
      using that lt fuel [of "m - 1"] by (cases m) simp_all
    with lt show ?thesis by blast
  qed
  ultimately show ?case by blast
qed

lemma parse_value_enough_fuel:
  assumes "parse_value n s = Some (v, r)"
  shows "parse_value (2 * length s + 2) s = Some (v, r)"
proof -
  from parse_fuel [of n] assms
  have "\<forall>m. 2 * (length s - length r) \<le> m \<longrightarrow> parse_value m s = Some (v, r)"
    by blast
  moreover have "2 * (length s - length r) \<le> 2 * length s + 2" by simp
  ultimately show ?thesis by blast
qed

lemma JSON_parse_any_fuel:
  "JSON_parse s = Inr v \<longleftrightarrow> (\<exists>n r. parse_value n s = Some (v, r) \<and> skip_ws r = [])"
proof
  assume "JSON_parse s = Inr v"
  then obtain r where "parse_value (2 * length s + 2) s = Some (v, r)" "skip_ws r = []"
    by (auto simp: JSON_parse_def split: option.splits if_splits)
  then show "\<exists>n r. parse_value n s = Some (v, r) \<and> skip_ws r = []"
    by blast
next
  assume "\<exists>n r. parse_value n s = Some (v, r) \<and> skip_ws r = []"
  then obtain n r where "parse_value n s = Some (v, r)" "skip_ws r = []" by blast
  with parse_value_enough_fuel [OF this(1)] show "JSON_parse s = Inr v"
    by (simp add: JSON_parse_def)
qed

text \<open>
  Every falsy value is not an array, so the guard passes exactly the arrays, however
  the truthiness of a number is read.
\<close>
lemma guard_is_array_test: "(\<not> truthy d \<or> \<not> isArray d) = (\<not> isArray d)"
  by (induction d rule: truthy.induct) simp_all

lemma isArray_iff: "isArray d \<and> array_items d = ds \<longleftrightarrow> d = Some (JArray ds)"
  by (induction d rule: truthy.induct) auto

lemma JSON_parse_error: "JSON_parse s = Inl e \<Longrightarrow> e = SyntaxError"
  by (auto simp: JSON_parse_def split: option.splits if_splits)

lemma get_designs_error: "get_designs data = Inl e \<Longrightarrow> e = TypeError \<and> data = JNull"
  by (cases data) (simp_all add: get_designs_def)

lemma read_response_Inr:
  "read_response t = Inr ds \<longleftrightarrow>
   (\<exists>data. JSON_parse (jsonText t) = Inr data \<and> get_designs data = Inr (Some (JArray ds)))"
proof -
  have "read_response t = Inr ds \<longleftrightarrow>
    (\<exists>data d. JSON_parse (jsonText t) = Inr data \<and> get_designs data = Inr d \<and>
       isArray d \<and> array_items d = ds)"
    unfolding read_response_def guard_is_array_test
    by (auto split: sum.splits)
  then show ?thesis by (simp add: isArray_iff)
qed

lemma read_response_Inl:
  "read_response t = Inl e \<Longrightarrow> e = SyntaxError \<or> e = TypeError \<or> e = invalid_structure"
  by (auto simp: read_response_def split: sum.splits if_splits
      dest: JSON_parse_error get_designs_error)

lemma read_response_errors:
  "(read_response t = Inl SyntaxError \<longleftrightarrow> JSON_parse (jsonText t) = Inl SyntaxError) \<and>
   (read_response t = Inl TypeError \<longleftrightarrow> JSON_parse (jsonText t) = Inr JNull) \<and>
   (read_response t = Inl invalid_structure \<longleftrightarrow>
      (\<exists>data d. JSON_parse (jsonText t) = Inr data \<and> get_designs data = Inr d \<and> \<not> isArray d))"
proof (cases "JSON_parse (jsonText t)")
  case (Inl e)
  with JSON_parse_error [OF this] show ?thesis
    by (simp add: read_response_def invalid_structure_def)
next
  case (Inr data)
  show ?thesis
  proof (cases "get_designs data")
    case (Inl e)
    with get_designs_error [OF this] Inr show ?thesis
      by (simp add: read_response_def invalid_structure_def)
  next
    case d: (Inr d)
    then have "data \<noteq> JNull" by (auto simp: get_designs_def)
    with Inr d show ?thesis
      unfolding read_response_def guard_is_array_test
      by (simp add: invalid_structure_def)
  qed
qed

text \<open>A failure of the external call reaches the caller as it is.\<close>

lemma bringToLife_rethrows: "bringToLife (Inl e) = Inl e"
  by (simp add: bringToLife_def)

text \<open>
  Claim C1, as the code has it. For every response the external call returns,
  \<open>bringToLife\<close> returns a sequence exactly when the text of the response parses to a
  value whose \<open>designs\<close> is an array, and the sequence is that array as it was received:
  of any length, its entries unchecked, nothing dropped and nothing added. Otherwise it
  fails: with the syntax error of the parser when the text is not JSON, with the type
  error of reading a property of \<^verbatim>\<open>null\<close> when the text is the JSON \<open>null\<close>, and with
  the error "Invalid response structure" when \<open>designs\<close> is missing or not an array;
  there is no partial result.
\<close>
theorem bringToLife_returns_designs_array:
  "(bringToLife (Inr t) = Inr ds \<longleftrightarrow>
     (\<exists>data. JSON_parse (jsonText t) = Inr data \<and>
        get_designs data = Inr (Some (JArray ds)))) \<and>
   (bringToLife (Inr t) = Inl e \<longrightarrow>
      e = SyntaxError \<or> e = TypeError \<or> e = invalid_structure) \<and>
   (bringToLife (Inr t) = Inl SyntaxError \<longleftrightarrow> JSON_parse (jsonText t) = Inl SyntaxError) \<and>
   (bringToLife (Inr t) = Inl TypeError \<longleftrightarrow> JSON_parse (jsonText t) = Inr JNull) \<and>
   (bringToLife (Inr t) = Inl invalid_structure \<longleftrightarrow>
      (\<exists>data d. JSON_parse (jsonText t) = Inr data \<and> get_designs data = Inr d \<and> \<not> isArray d))"
  using read_response_Inr [of t ds] read_response_Inl [of t e] read_response_errors [of t]
  by (simp add: bringToLife_def)

lemma parse_two_designs:
  "JSON_parse (js ''{\"designs\":[true,null]}'') =
     Inr (JObject [(js ''designs'', JArray [JBool True, JNull])])"
  by code_simp

lemma parse_garbage: "JSON_parse (js ''<html>'') = Inl SyntaxError"
  by code_simp

text \<open>The statement at a response of two entries and at a response that is not JSON.\<close>
theorem bringToLife_returns_designs_array_witness:
  "bringToLife (Inr (Some (js ''{\"designs\":[true,null]}''))) = Inr [JBool True, JNull] \<and>
   bringToLife (Inr (Some (js ''<html>''))) = Inl SyntaxError"
proof -
  have t: "jsonText (Some (js ''{\"designs\":[true,null]}'')) = js ''{\"designs\":[true,null]}''"
    by (simp add: jsonText_def js_def)
  have g: "get_designs (JObject [(js ''designs'', JArray [JBool True, JNull])]) =
      Inr (Some (JArray [JBool True, JNull]))"
    by (simp add: get_designs_def)
  have "bringToLife (Inr (Some (js ''{\"designs\":[true,null]}''))) = Inr [JBool True, JNull]"
    using bringToLife_returns_designs_array
      [of "Some (js ''{\"designs\":[true,null]}'')" "[JBool True, JNull]"] t g parse_two_designs
    by simp
  moreover have "bringToLife (Inr (Some (js ''<html>''))) = Inl SyntaxError"
    by (simp add: bringToLife_def read_response_def jsonText_def parse_garbage) (simp add: js_def)
  ultimately show ?thesis by simp
qed

text \<open>
  A response whose \<open>designs\<close> is the empty array, or an array of one number, is
  returned as a success, though it is not a sequence of three theme variants.
\<close>
theorem bringToLife_accepts_empty_array:
  "bringToLife (Inr (Some (js ''{\"designs\":[]}''))) = Inr [] \<and> \<not> three_variants [] \<and>
   bringToLife (Inr (Some (js ''{\"designs\":[7]}''))) = Inr [JNumber (js ''7'')] \<and>
   \<not> three_variants [JNumber (js ''7'')]"
  by code_simp

lemma parse_empty_object: "JSON_parse (js ''{}'') = Inr (JObject [])"
  by code_simp

text \<open>
  Claim C10. When the response has no text (\<^verbatim>\<open>undefined\<close>, or the empty string), the
  text parsed is \<open>{}\<close>, and \<open>bringToLife\<close> fails with the error
  "Invalid response structure": not with the syntax error of the parser, and not with a
  success.
\<close>
theorem empty_response_is_invalid_structure:
  "t = None \<or> t = Some [] \<Longrightarrow>
   bringToLife (Inr t) = Inl (Error (js ''Invalid response structure'')) \<and>
   Error (js ''Invalid response structure'') \<noteq> SyntaxError"
proof -
  assume "t = None \<or> t = Some []"
  then have "jsonText t = js ''{}''"
    by (auto simp: jsonText_def)
  then show ?thesis
    by (simp add: bringToLife_def read_response_def parse_empty_object get_designs_def
        invalid_structure_def)
qed

text \<open>The statement at the absent and at the empty text.\<close>
theorem empty_response_is_invalid_structure_witness:
  "bringToLife (Inr None) = Inl (Error (js ''Invalid response structure'')) \<and>
   bringToLife (Inr (Some [])) = Inl (Error (js ''Invalid response structure''))"
  using empty_response_is_invalid_structure [of None]
    empty_response_is_invalid_structure [of "Some []"]
  by simp

end
